theory Spec2Isabelle
  imports Main "HOL-Library.Char_ord" "HOL-Library.List_Lexorder"
begin

section \<open>Python strings\<close>

text \<open>
  A Python \<open>str\<close> is modelled as a \<open>string\<close> whose characters are the code points
  0 to 255 (HOL's \<open>char\<close>), so \<open>length\<close> counts code points as Python's \<open>len\<close> does.
  The operations below are the \<open>str\<close> methods the repository calls, restricted to
  these code points.
\<close>

text \<open>\<open>s.startswith(p)\<close>.\<close>

fun startswith :: "string \<Rightarrow> string \<Rightarrow> bool" where
  "startswith s [] = True"
| "startswith [] (p # ps) = False"
| "startswith (c # cs) (p # ps) = (c = p \<and> startswith cs ps)"

text \<open>\<open>sub in s\<close>.\<close>

fun contains :: "string \<Rightarrow> string \<Rightarrow> bool" where
  "contains [] sub = (sub = [])"
| "contains (c # cs) sub = (startswith (c # cs) sub \<or> contains cs sub)"

text \<open>\<open>any(p in s for p in ps)\<close>.\<close>

definition contains_any :: "string \<Rightarrow> string list \<Rightarrow> bool" where
  "contains_any s ps = list_ex (contains s) ps"

text \<open>\<open>s.count(sub)\<close>: the occurrences of \<open>sub\<close> found left to right without overlap.\<close>

function py_count :: "string \<Rightarrow> string \<Rightarrow> nat" where
  "py_count s sub =
     (if sub = [] then Suc (length s)
      else if s = [] then 0
      else if startswith s sub then Suc (py_count (drop (length sub) s) sub)
      else py_count (tl s) sub)"
  by pat_completeness auto
termination
  by (relation "measure (\<lambda>(s, sub). length s)") (auto simp: Suc_le_eq)

text \<open>
  \<open>c.isspace()\<close> on the code points below 256: tab to carriage return, the four
  separators 0x1C to 0x1F, the space, NEL (0x85) and the no-break space (0xA0).
\<close>

definition is_space :: "char \<Rightarrow> bool" where
  "is_space c = ((of_char c :: nat) \<in> set [9, 10, 11, 12, 13, 28, 29, 30, 31, 32, 133, 160])"

text \<open>\<open>s.strip()\<close>.\<close>

definition py_strip :: "string \<Rightarrow> string" where
  "py_strip s = rev (dropWhile is_space (rev (dropWhile is_space s)))"

text \<open>\<open>s.rstrip('/')\<close>: every trailing slash is removed.\<close>

definition rstrip_slash :: "string \<Rightarrow> string" where
  "rstrip_slash s = rev (dropWhile (\<lambda>c. c = CHR ''/'') (rev s))"

text \<open>
  \<open>s.lower()\<close> on the code points below 256: the ASCII capitals and the Latin-1
  capitals 0xC0 to 0xDE (the multiplication sign 0xD7 apart) move up by 32.
\<close>

definition lower_char :: "char \<Rightarrow> char" where
  "lower_char c =
     (let n = (of_char c :: nat)
      in if (65 \<le> n \<and> n \<le> 90) \<or> (192 \<le> n \<and> n \<le> 222 \<and> n \<noteq> 215)
         then char_of (n + 32) else c)"

definition py_lower :: "string \<Rightarrow> string" where
  "py_lower s = map lower_char s"

text \<open>\<open>s.split(sep)\<close> for a one-character separator.\<close>

fun py_split :: "char \<Rightarrow> string \<Rightarrow> string list" where
  "py_split sep [] = [[]]"
| "py_split sep (c # cs) =
     (if c = sep then [] # py_split sep cs
      else (case py_split sep cs of [] \<Rightarrow> [[c]] | w # ws \<Rightarrow> (c # w) # ws))"

text \<open>\<open>sep.join(xs)\<close>.\<close>

fun py_join :: "string \<Rightarrow> string list \<Rightarrow> string" where
  "py_join sep [] = []"
| "py_join sep [x] = x"
| "py_join sep (x # y # ys) = x @ sep @ py_join sep (y # ys)"

text \<open>\<open>list(dict.fromkeys(xs))\<close>: the first occurrence of every element, in order.\<close>

fun dedup :: "'a list \<Rightarrow> 'a list" where
  "dedup [] = []"
| "dedup (x # xs) = x # dedup (filter (\<lambda>y. y \<noteq> x) xs)"

section \<open>urllib.parse.urlparse\<close>

text \<open>
  The repository parses every URL with the standard library's \<open>urlparse\<close>; the model
  follows CPython 3.12's \<open>urllib/parse.py\<close>. Two of its checks are not computed here.
  \<open>_checknetloc\<close> only rejects a host whose NFKC normal form gains one of \<open>/?#@:\<close>,
  which no code point below 256 does, so it is the identity in this model. The check of
  a bracketed host (\<open>_check_bracketed_host\<close>, through \<open>ipaddress\<close>) is the parameter
  \<open>ok\<close> of \<open>urlsplit\<close>: \<open>ok h\<close> says that \<open>h\<close> is accepted between brackets.
\<close>

datatype exn = ValueError | TimeoutError | OtherException

record ParseResult =
  scheme :: string
  netloc :: string
  path :: string
  params :: string
  query :: string
  fragment :: string

definition scheme_chars :: string where
  "scheme_chars =
     ''abcdefghijklmnopqrstuvwxyz'' @ ''ABCDEFGHIJKLMNOPQRSTUVWXYZ'' @ ''0123456789'' @ ''+-.''"

definition ascii_letters :: string where
  "ascii_letters = ''abcdefghijklmnopqrstuvwxyz'' @ ''ABCDEFGHIJKLMNOPQRSTUVWXYZ''"

text \<open>\<open>url.lstrip(_WHATWG_C0_CONTROL_OR_SPACE)\<close>: leading code points up to 0x20 go.\<close>

definition lstrip_c0 :: "string \<Rightarrow> string" where
  "lstrip_c0 url = dropWhile (\<lambda>c. (of_char c :: nat) \<le> 32) url"

text \<open>The loop over \<open>_UNSAFE_URL_BYTES_TO_REMOVE\<close>: tab, carriage return and line feed
  are deleted wherever they stand.\<close>

definition remove_unsafe :: "string \<Rightarrow> string" where
  "remove_unsafe url = filter (\<lambda>c. (of_char c :: nat) \<notin> set [9, 13, 10]) url"

text \<open>The scheme: the text before the first colon, when that text is not empty, starts
  with an ASCII letter and consists of \<open>scheme_chars\<close>; otherwise the default \<open>''\<close>.\<close>

definition split_scheme :: "string \<Rightarrow> string \<times> string" where
  "split_scheme url =
     (let pre = takeWhile (\<lambda>c. c \<noteq> CHR '':'') url
      in if length pre < length url \<and> pre \<noteq> [] \<and> hd pre \<in> set ascii_letters
            \<and> list_all (\<lambda>c. c \<in> set scheme_chars) pre
         then (py_lower pre, drop (Suc (length pre)) url)
         else ([], url))"

definition netloc_delim :: "char \<Rightarrow> bool" where
  "netloc_delim c = (c = CHR ''/'' \<or> c = CHR ''?'' \<or> c = CHR ''#'')"

text \<open>\<open>_splitnetloc(url, 2)\<close>: the host runs from position 2 to the first of \<open>/?#\<close>.\<close>

definition splitnetloc :: "string \<Rightarrow> string \<times> string" where
  "splitnetloc url =
     (takeWhile (\<lambda>c. \<not> netloc_delim c) (drop 2 url),
      dropWhile (\<lambda>c. \<not> netloc_delim c) (drop 2 url))"

text \<open>\<open>netloc.partition('[')[2].partition(']')[0]\<close>.\<close>

definition bracketed_host :: "string \<Rightarrow> string" where
  "bracketed_host nl =
     takeWhile (\<lambda>c. c \<noteq> CHR '']'') (drop 1 (dropWhile (\<lambda>c. c \<noteq> CHR ''['') nl))"

text \<open>\<open>url.split(c, 1)\<close> when \<open>c in url\<close>, and \<open>(url, '')\<close> otherwise.\<close>

definition split_first :: "char \<Rightarrow> string \<Rightarrow> string \<times> string" where
  "split_first c url =
     (if c \<in> set url
      then (takeWhile (\<lambda>d. d \<noteq> c) url, drop 1 (dropWhile (\<lambda>d. d \<noteq> c) url))
      else (url, []))"

definition urlsplit :: "(string \<Rightarrow> bool) \<Rightarrow> string \<Rightarrow> exn + (string \<times> string \<times> string \<times> string \<times> string)" where
  "urlsplit ok url0 =
     (let url1 = remove_unsafe (lstrip_c0 url0);
          (sch, url2) = split_scheme url1
      in if take 2 url2 = ''//''
         then
           (let (nl, url3) = splitnetloc url2
            in if (CHR ''['' \<in> set nl \<and> CHR '']'' \<notin> set nl)
                  \<or> (CHR '']'' \<in> set nl \<and> CHR ''['' \<notin> set nl)
               then Inl ValueError
               else if CHR ''['' \<in> set nl \<and> CHR '']'' \<in> set nl \<and> \<not> ok (bracketed_host nl)
               then Inl ValueError
               else
                 (let (url4, frag) = split_first CHR ''#'' url3;
                      (url5, qry) = split_first CHR ''?'' url4
                  in Inr (sch, nl, url5, qry, frag)))
         else
           (let (url4, frag) = split_first CHR ''#'' url2;
                (url5, qry) = split_first CHR ''?'' url4
            in Inr (sch, [], url5, qry, frag)))"

definition uses_params :: "string list" where
  "uses_params =
     ['''', ''ftp'', ''hdl'', ''prospero'', ''http'', ''imap'', ''https'', ''shttp'', ''rtsp'',
      ''rtsps'', ''rtspu'', ''sip'', ''sips'', ''mms'', ''sftp'', ''tel'']"

text \<open>\<open>_splitparams(url)\<close>, called only when \<open>';' in url\<close>: the parameters start at the
  first semicolon after the last slash.\<close>

definition splitparams :: "string \<Rightarrow> string \<times> string" where
  "splitparams url =
     (if CHR ''/'' \<in> set url
      then
        (let k = length url - Suc (length (takeWhile (\<lambda>c. c \<noteq> CHR ''/'') (rev url)));
             tl_seg = drop k url
         in if CHR '';'' \<in> set tl_seg
            then (let i = k + length (takeWhile (\<lambda>c. c \<noteq> CHR '';'') tl_seg)
                  in (take i url, drop (Suc i) url))
            else (url, []))
      else
        (let i = length (takeWhile (\<lambda>c. c \<noteq> CHR '';'') url)
         in (take i url, drop (Suc i) url)))"

definition urlparse :: "(string \<Rightarrow> bool) \<Rightarrow> string \<Rightarrow> exn + ParseResult" where
  "urlparse ok url =
     (case urlsplit ok url of
        Inl e \<Rightarrow> Inl e
      | Inr (sch, nl, u, qry, frag) \<Rightarrow>
          (let (p, prm) = (if sch \<in> set uses_params \<and> CHR '';'' \<in> set u
                           then splitparams u else (u, []))
           in Inr \<lparr>scheme = sch, netloc = nl, path = p, params = prm,
                    query = qry, fragment = frag\<rparr>))"

section \<open>utils.py: the URL normalizers\<close>

definition has_http_prefix :: "string \<Rightarrow> bool" where
  "has_http_prefix url = (startswith url ''http://'' \<or> startswith url ''https://'')"

text \<open>\<open>normalize_url\<close>: an empty input is returned as it is; \<open>urlparse\<close> may raise.\<close>

definition normalize_url :: "(string \<Rightarrow> bool) \<Rightarrow> string \<Rightarrow> exn + string" where
  "normalize_url ok url =
     (if url = [] then Inr url
      else
        (let url1 = (if \<not> has_http_prefix url then ''https://'' @ url else url)
         in case urlparse ok url1 of
              Inl e \<Rightarrow> Inl e
            | Inr parsed \<Rightarrow> Inr (scheme parsed @ ''://'' @ rstrip_slash (netloc parsed))))"

text \<open>
  The argument of \<open>normalize_feed_url\<close> is any Python value; all that the function asks
  of a value that is not a \<open>str\<close> is that it is not one.
\<close>

datatype pyval = Str string | NotStr

definition normalize_feed_url :: "(string \<Rightarrow> bool) \<Rightarrow> pyval \<Rightarrow> exn + string option" where
  "normalize_feed_url ok v =
     (case v of
        NotStr \<Rightarrow> Inr None
      | Str feed_url0 \<Rightarrow>
          if feed_url0 = [] then Inr None
          else
            (let feed_url1 = py_strip feed_url0
             in if feed_url1 = [] then Inr None
                else
                  (let feed_url2 = (if \<not> has_http_prefix feed_url1
                                    then ''https://'' @ feed_url1 else feed_url1)
                   in case urlparse ok feed_url2 of
                        Inl e \<Rightarrow> Inl e
                      | Inr parsed \<Rightarrow>
                          (let p = (if path parsed \<noteq> [] then rstrip_slash (path parsed) else []);
                               normalized = scheme parsed @ ''://'' @ netloc parsed @ p
                           in Inr (Some (if query parsed \<noteq> []
                                         then normalized @ ''?'' @ query parsed
                                         else normalized))))))"

text \<open>
  \<open>normalize_feed_list\<close>: the loop keeps the normalized entries seen so far in order;
  \<open>sorted\<close> compares strings by code point.
\<close>

fun feed_list_loop :: "(string \<Rightarrow> bool) \<Rightarrow> string list \<Rightarrow> string list \<Rightarrow> exn + string list" where
  "feed_list_loop ok [] normalized_urls = Inr normalized_urls"
| "feed_list_loop ok (url # urls) normalized_urls =
     (case normalize_feed_url ok (Str url) of
        Inl e \<Rightarrow> Inl e
      | Inr None \<Rightarrow> feed_list_loop ok urls normalized_urls
      | Inr (Some normalized) \<Rightarrow>
          if normalized \<noteq> [] \<and> normalized \<notin> set normalized_urls
          then feed_list_loop ok urls (normalized_urls @ [normalized])
          else feed_list_loop ok urls normalized_urls)"

definition normalize_feed_list :: "(string \<Rightarrow> bool) \<Rightarrow> string \<Rightarrow> exn + string list" where
  "normalize_feed_list ok rss_string =
     (if rss_string = [] \<or> rss_string = ''Not found'' then Inr []
      else (case feed_list_loop ok (py_split CHR '';'' rss_string) [] of
              Inl e \<Rightarrow> Inl e
            | Inr normalized_urls \<Rightarrow> Inr (sort normalized_urls)))"

section \<open>The network and the HTML parser\<close>

text \<open>
  What the program reads from outside is a parameter of the model. \<open>session_get env u t\<close>
  is the outcome of \<open>session.get(u, timeout=t)\<close>: an exception, or a response with its
  status, its \<open>Content-Type\<close> header (if any) and its body. \<open>link_hrefs\<close> and
  \<open>anchor_hrefs\<close> give, for a page's HTML, the \<open>href\<close> values BeautifulSoup finds on
  the feed-typed \<open>link\<close> tags and on the anchors; \<open>urljoin\<close> is the standard library's.
  \<open>parse_feeds env u\<close> is the outcome of the hub parser's HTML extraction on \<open>u\<close>.
  \<open>raises_for_status env c\<close> says that \<open>response.raise_for_status()\<close> raises on
  status \<open>c\<close>. \<open>bracket_ok\<close> is \<open>urlsplit\<close>'s check of a bracketed host.
\<close>

record response =
  status_code :: int
  content_type :: "string option"
  body_text :: string

record FeedRecord =
  feed_category :: string
  feed_title :: string
  feed_url :: string

record env =
  bracket_ok :: "string \<Rightarrow> bool"
  session_get :: "string \<Rightarrow> nat \<Rightarrow> exn + response"
  link_hrefs :: "string \<Rightarrow> string list"
  anchor_hrefs :: "string \<Rightarrow> string list"
  urljoin :: "string \<Rightarrow> string \<Rightarrow> exn + string"
  raises_for_status :: "int \<Rightarrow> bool"
  parse_feeds :: "string \<Rightarrow> exn + FeedRecord list"

section \<open>feed_finder.py\<close>

definition content_type_words :: "string list" where
  "content_type_words = [''xml'', ''rss'', ''atom'']"

definition feed_markers :: "string list" where
  "feed_markers = [''<rss'', ''<feed'', ''<?xml'', ''<atom'']"

text \<open>\<open>response.headers.get('Content-Type', '').lower()\<close>.\<close>

definition content_type_lower :: "response \<Rightarrow> string" where
  "content_type_lower r = py_lower (case content_type r of None \<Rightarrow> [] | Some h \<Rightarrow> h)"

text \<open>The body of the \<open>try\<close> in \<open>FeedFinder._check_feed\<close>.\<close>

definition check_feed_try :: "env \<Rightarrow> string \<Rightarrow> exn + bool" where
  "check_feed_try e u =
     (case session_get e u 5 of
        Inl x \<Rightarrow> Inl x
      | Inr r \<Rightarrow>
          if status_code r \<noteq> 200 then Inr False
          else if contains_any (content_type_lower r) content_type_words then Inr True
          else Inr (contains_any (py_lower (take 500 (body_text r))) feed_markers))"

text \<open>\<open>FeedFinder._check_feed\<close>: both handlers return \<open>False\<close>.\<close>

definition check_feed :: "env \<Rightarrow> string \<Rightarrow> exn + bool" where
  "check_feed e u =
     (case check_feed_try e u of
        Inl TimeoutError \<Rightarrow> Inr False
      | Inl _ \<Rightarrow> Inr False
      | Inr b \<Rightarrow> Inr b)"

text \<open>\<open>[url for url, is_feed in zip(urls, results) if is_feed is True]\<close>, the results
  being those of \<open>_check_feed\<close> on each URL.\<close>

definition confirmed_feeds :: "env \<Rightarrow> string list \<Rightarrow> string list" where
  "confirmed_feeds e urls = filter (\<lambda>u. check_feed e u = Inr True) urls"

definition detect_cms :: "string \<Rightarrow> string option" where
  "detect_cms html_text =
     (let txt = py_lower html_text
      in if contains txt ''wp-content'' \<or> contains txt ''wp-'' then Some ''wordpress''
         else if contains txt ''drupal'' then Some ''drupal''
         else if contains txt ''/ghost/'' then Some ''ghost''
         else if contains txt ''medium.com'' then Some ''medium''
         else None)"

definition get_cms_feed_paths :: "string \<Rightarrow> string list" where
  "get_cms_feed_paths cms =
     (if cms = ''wordpress'' then [''/feed'', ''/comments/feed'', ''/blog/feed'']
      else if cms = ''drupal'' then [''/rss.xml'', ''/feed'']
      else if cms = ''ghost'' then [''/rss/'']
      else if cms = ''medium'' then [''/feed'']
      else [])"

definition try_cms_paths :: "env \<Rightarrow> string \<Rightarrow> string \<Rightarrow> exn + string list" where
  "try_cms_paths e base_url cms =
     Inr (confirmed_feeds e (map (\<lambda>p. base_url @ p) (get_cms_feed_paths cms)))"

text \<open>\<open>urljoin\<close> over a list of hrefs; the first exception ends the strategy.\<close>

fun join_all :: "env \<Rightarrow> string \<Rightarrow> string list \<Rightarrow> exn + string list" where
  "join_all e u [] = Inr []"
| "join_all e u (h # hs) =
     (case urljoin e u h of
        Inl x \<Rightarrow> Inl x
      | Inr full \<Rightarrow> (case join_all e u hs of Inl x \<Rightarrow> Inl x | Inr fs \<Rightarrow> Inr (full # fs)))"

definition extract_from_link_tags :: "env \<Rightarrow> string \<Rightarrow> string \<Rightarrow> exn + string list" where
  "extract_from_link_tags e u html_text =
     (case join_all e u (filter (\<lambda>h. h \<noteq> []) (link_hrefs e html_text)) of
        Inl x \<Rightarrow> Inl x
      | Inr urls \<Rightarrow> Inr (confirmed_feeds e urls))"

definition extract_from_anchor_tags :: "env \<Rightarrow> string \<Rightarrow> string \<Rightarrow> exn + string list" where
  "extract_from_anchor_tags e u html_text =
     (case join_all e u
             (filter (\<lambda>h. contains_any (py_lower h) [''rss'', ''feed'', ''xml'', ''atom''])
                (anchor_hrefs e html_text)) of
        Inl x \<Rightarrow> Inl x
      | Inr fulls \<Rightarrow> Inr (confirmed_feeds e (take 30 (dedup fulls))))"

definition common_paths :: "string list" where
  "common_paths =
     [''/rss'', ''/feed'', ''/rss.xml'', ''/feed.xml'', ''/atom.xml'', ''/index.xml'', ''/feeds'',
      ''/blog/feed'', ''/rss-feed'', ''/site/rss'', ''/site/feed'', ''/syndication'', ''/feed/rss'',
      ''/atom'', ''/news/rss'', ''/blog/rss'']"

definition try_common_paths :: "env \<Rightarrow> string \<Rightarrow> exn + string list" where
  "try_common_paths e base_url = Inr (confirmed_feeds e (map (\<lambda>p. base_url @ p) common_paths))"

text \<open>\<open>s.strip('/')\<close>.\<close>

definition strip_slash :: "string \<Rightarrow> string" where
  "strip_slash s = rstrip_slash (dropWhile (\<lambda>c. c = CHR ''/'') s)"

definition nested_paths :: "string list" where
  "nested_paths = [''/feed'', ''/feed.xml'', ''/rss'', ''/rss.xml'', ''/atom.xml'']"

definition try_nested_paths :: "env \<Rightarrow> string \<Rightarrow> ParseResult \<Rightarrow> exn + string list" where
  "try_nested_paths e base_url parsed =
     (if path parsed = [] \<or> strip_slash (path parsed) = [] then Inr []
      else Inr (confirmed_feeds e
                  (map (\<lambda>sub. base_url @ rstrip_slash (path parsed) @ sub) nested_paths)))"

text \<open>The merge loop of \<open>find_feeds\<close>: a strategy that raised contributes nothing;
  \<open>normalize_feed_url\<close> may raise here, outside \<open>gather\<close>.\<close>

fun merge_list :: "(string \<Rightarrow> bool) \<Rightarrow> string list \<Rightarrow> string list \<Rightarrow> exn + string list" where
  "merge_list ok [] feeds = Inr feeds"
| "merge_list ok (f # fs) feeds =
     (case normalize_feed_url ok (Str f) of
        Inl x \<Rightarrow> Inl x
      | Inr None \<Rightarrow> merge_list ok fs feeds
      | Inr (Some normalized) \<Rightarrow>
          if normalized \<noteq> [] \<and> normalized \<notin> set feeds
          then merge_list ok fs (feeds @ [normalized])
          else merge_list ok fs feeds)"

fun merge_results :: "(string \<Rightarrow> bool) \<Rightarrow> (exn + string list) list \<Rightarrow> string list \<Rightarrow> exn + string list" where
  "merge_results ok [] feeds = Inr feeds"
| "merge_results ok (Inl x # rs) feeds = merge_results ok rs feeds"
| "merge_results ok (Inr fs # rs) feeds =
     (case merge_list ok fs feeds of
        Inl x \<Rightarrow> Inl x
      | Inr feeds' \<Rightarrow> merge_results ok rs feeds')"

text \<open>The five strategies of \<open>find_feeds\<close>, in the order \<open>gather\<close> is given them.\<close>

definition strategies :: "env \<Rightarrow> string \<Rightarrow> string \<Rightarrow> string \<Rightarrow> ParseResult \<Rightarrow> (exn + string list) list" where
  "strategies e u html_text base_url parsed =
     [(case detect_cms html_text of
         Some cms \<Rightarrow> try_cms_paths e base_url cms
       | None \<Rightarrow> Inr []),
      extract_from_link_tags e u html_text,
      extract_from_anchor_tags e u html_text,
      try_common_paths e base_url,
      try_nested_paths e base_url parsed]"

text \<open>\<open>find_feeds\<close>: a failed fetch of the page (an exception, or a status that
  \<open>raise_for_status\<close> rejects) returns the empty list.\<close>

definition find_feeds :: "env \<Rightarrow> string \<Rightarrow> exn + string list" where
  "find_feeds e u =
     (case session_get e u 10 of
        Inl x \<Rightarrow> Inr []
      | Inr r \<Rightarrow>
          if raises_for_status e (status_code r) then Inr []
          else
            (case normalize_url (bracket_ok e) u of
               Inl x \<Rightarrow> Inl x
             | Inr base_url \<Rightarrow>
                 (case urlparse (bracket_ok e) u of
                    Inl x \<Rightarrow> Inl x
                  | Inr parsed \<Rightarrow>
                      merge_results (bracket_ok e)
                        (strategies e u (body_text r) base_url parsed) [])))"

section \<open>hub_parser.py\<close>

definition hub_indicators :: "string list" where
  "hub_indicators =
     [''rss feed'', ''subscribe to'', ''feed url'', ''syndication'', ''available feeds'',
      ''rss feeds'', ''atom feed'', ''news feeds'', ''feed list'', ''rss channels'',
      ''subscribe via rss'']"

definition indicator_count :: "string \<Rightarrow> nat" where
  "indicator_count content_lower = length (filter (contains content_lower) hub_indicators)"

definition feed_link_count :: "string \<Rightarrow> nat" where
  "feed_link_count content_lower =
     py_count content_lower ''.xml''
     + py_count content_lower (''href='' @ [CHR 0x22] @ ''/feed'')
     + py_count content_lower (''href='' @ [CHR 0x22] @ ''/rss'')
     + py_count content_lower ''atom.xml''"

definition looks_like_hub_page :: "string \<Rightarrow> bool" where
  "looks_like_hub_page html_content =
     (let content_lower = py_lower html_content
      in indicator_count content_lower \<ge> 2 \<or> feed_link_count content_lower \<ge> 3)"

text \<open>The inner \<open>check_feed\<close> of \<open>validate_feeds\<close>: the record itself, or \<open>None\<close>; the
  bare \<open>except\<close> turns every exception into \<open>None\<close>.\<close>

definition hub_check_feed :: "env \<Rightarrow> FeedRecord \<Rightarrow> FeedRecord option" where
  "hub_check_feed e feed =
     (case session_get e (feed_url feed) 5 of
        Inl x \<Rightarrow> None
      | Inr r \<Rightarrow>
          if status_code r \<noteq> 200 then None
          else if contains_any (content_type_lower r) content_type_words then Some feed
          else if contains_any (py_lower (take 500 (body_text r))) feed_markers then Some feed
          else None)"

text \<open>\<open>validate_feeds\<close>: \<open>gather\<close> returns the results in the order of the tasks; the
  semaphore bounds how many run at once and has no part in the result.\<close>

definition validate_feeds :: "env \<Rightarrow> FeedRecord list \<Rightarrow> FeedRecord list" where
  "validate_feeds e feeds = List.map_filter (hub_check_feed e) feeds"

section \<open>main.py\<close>

record SiteResult =
  website :: string
  rss :: string

definition hub_patterns :: "string list" where
  "hub_patterns = [''/rss'', ''/feeds'', ''/feed-list'', ''/subscribe'', ''/syndication'']"

definition is_hub_page :: "string \<Rightarrow> bool" where
  "is_hub_page u = contains_any (py_lower u) hub_patterns"

text \<open>The loops of \<open>process_website\<close> that normalize each URL again and keep the
  truthy results.\<close>

fun normalize_each :: "(string \<Rightarrow> bool) \<Rightarrow> string list \<Rightarrow> exn + string list" where
  "normalize_each ok [] = Inr []"
| "normalize_each ok (f # fs) =
     (case normalize_feed_url ok (Str f) of
        Inl x \<Rightarrow> Inl x
      | Inr r \<Rightarrow>
          (case normalize_each ok fs of
             Inl x \<Rightarrow> Inl x
           | Inr rest \<Rightarrow>
               Inr (case r of
                      None \<Rightarrow> rest
                    | Some normalized \<Rightarrow> if normalized \<noteq> [] then normalized # rest else rest)))"

definition hub_route :: "env \<Rightarrow> string \<Rightarrow> exn + string list" where
  "hub_route e u =
     (case parse_feeds e u of
        Inl x \<Rightarrow> Inl x
      | Inr feed_objects \<Rightarrow>
          if feed_objects = [] then Inr []
          else
            (let feed_objects1 = (if length feed_objects > 5
                                  then validate_feeds e feed_objects else feed_objects)
             in case normalize_each (bracket_ok e) (map feed_url feed_objects1) of
                  Inl x \<Rightarrow> Inl x
                | Inr feeds \<Rightarrow> Inr (dedup feeds)))"

definition generic_route :: "env \<Rightarrow> string \<Rightarrow> exn + string list" where
  "generic_route e u =
     (case find_feeds e u of
        Inl x \<Rightarrow> Inl x
      | Inr found_feeds \<Rightarrow>
          (case normalize_each (bracket_ok e) found_feeds of
             Inl x \<Rightarrow> Inl x
           | Inr feeds \<Rightarrow> Inr (dedup feeds)))"

text \<open>The body of the \<open>try\<close> in \<open>process_website\<close>.\<close>

definition discover :: "env \<Rightarrow> string \<Rightarrow> exn + string list" where
  "discover e u = (if is_hub_page u then hub_route e u else generic_route e u)"

text \<open>\<open>process_website\<close>: \<open>normalize_url\<close> is called before the \<open>try\<close>, so what it
  raises leaves the function; inside the \<open>try\<close> both handlers set \<open>feeds = []\<close>.\<close>

definition process_website :: "env \<Rightarrow> string \<Rightarrow> exn + SiteResult" where
  "process_website e original_url =
     (case normalize_url (bracket_ok e) original_url of
        Inl x \<Rightarrow> Inl x
      | Inr u \<Rightarrow>
          if u = [] then Inr \<lparr>website = original_url, rss = ''Not found''\<rparr>
          else
            (let feeds = (case discover e u of
                            Inl TimeoutError \<Rightarrow> []
                          | Inl _ \<Rightarrow> []
                          | Inr fs \<Rightarrow> fs)
             in Inr \<lparr>website = u,
                     rss = (if feeds \<noteq> [] then py_join ''; '' feeds else ''Not found'')\<rparr>))"

text \<open>\<open>process_all\<close>: a task that raised is reported and adds no result. The results
  are listed here in the order of the sites; the program appends them as the tasks
  complete.\<close>

fun process_all :: "env \<Rightarrow> string list \<Rightarrow> SiteResult list" where
  "process_all e [] = []"
| "process_all e (site # sites) =
     (case process_website e site of
        Inl x \<Rightarrow> process_all e sites
      | Inr r \<Rightarrow> r # process_all e sites)"

section \<open>utils.py: saving the results\<close>

text \<open>
  The table \<open>rss_feeds\<close> as a map from \<open>website_url\<close> (unique) to the nullable column
  \<open>feed_urls\<close>. \<open>save_website_result\<close> returns the table after the transaction.
\<close>

type_synonym table = "string \<rightharpoonup> string option"

text \<open>\<open>old_count\<close>: the entries of the stored string that are not blank.\<close>

definition old_count :: "string option \<Rightarrow> nat" where
  "old_count old_feed_string =
     (case old_feed_string of
        None \<Rightarrow> 0
      | Some s \<Rightarrow>
          if s = [] then 0
          else length (filter (\<lambda>u. py_strip u \<noteq> []) (py_split CHR '';'' s)))"

definition new_feed_string :: "string list \<Rightarrow> string option" where
  "new_feed_string new_list = (if new_list \<noteq> [] then Some (py_join ''; '' new_list) else None)"

definition save_website_result :: "(string \<Rightarrow> bool) \<Rightarrow> table \<Rightarrow> string \<Rightarrow> string \<Rightarrow> exn + table" where
  "save_website_result ok db website_url0 rss_string =
     (case normalize_url ok website_url0 of
        Inl x \<Rightarrow> Inl x
      | Inr website_url \<Rightarrow>
          (case normalize_feed_list ok rss_string of
             Inl x \<Rightarrow> Inl x
           | Inr new_list \<Rightarrow>
               (case db website_url of
                  Some old_feed_string \<Rightarrow>
                    if length new_list \<le> old_count old_feed_string then Inr db
                    else Inr (db(website_url \<mapsto> new_feed_string new_list))
                | None \<Rightarrow> Inr (db(website_url \<mapsto> new_feed_string new_list)))))"

text \<open>\<open>save_batch_results\<close>: an exception ends the loop; the saves before it stay.\<close>

fun save_batch_results :: "(string \<Rightarrow> bool) \<Rightarrow> table \<Rightarrow> SiteResult list \<Rightarrow> table \<times> exn option" where
  "save_batch_results ok db [] = (db, None)"
| "save_batch_results ok db (item # items) =
     (case save_website_result ok db (website item) (rss item) of
        Inl x \<Rightarrow> (db, Some x)
      | Inr db' \<Rightarrow> save_batch_results ok db' items)"

text \<open>The number of feeds stored for a site: \<open>old_count\<close> of its row, 0 without a row.\<close>

definition stored_count :: "table \<Rightarrow> string \<Rightarrow> nat" where
  "stored_count db k = (case db k of None \<Rightarrow> 0 | Some old_feed_string \<Rightarrow> old_count old_feed_string)"

section \<open>The feed URL normalizer as the specification words it\<close>

text \<open>
  The specification describes \<open>normalizeFeedURL\<close> as stripping a single trailing slash
  from the path. \<open>strip_single_slash\<close> is that rule, and \<open>normalizeFeedURL_spec\<close> is
  \<open>normalize_feed_url\<close> with that rule in the place of \<open>rstrip('/')\<close>; it is compared
  with the function of the source below.
\<close>

definition strip_single_slash :: "string \<Rightarrow> string" where
  "strip_single_slash p = (if p \<noteq> [] \<and> last p = CHR ''/'' then butlast p else p)"

definition normalizeFeedURL_spec :: "(string \<Rightarrow> bool) \<Rightarrow> pyval \<Rightarrow> exn + string option" where
  "normalizeFeedURL_spec ok v =
     (case v of
        NotStr \<Rightarrow> Inr None
      | Str feed_url0 \<Rightarrow>
          (let feed_url1 = py_strip feed_url0
           in if feed_url1 = [] then Inr None
              else
                (let feed_url2 = (if \<not> has_http_prefix feed_url1
                                  then ''https://'' @ feed_url1 else feed_url1)
                 in case urlparse ok feed_url2 of
                      Inl e \<Rightarrow> Inl e
                    | Inr parsed \<Rightarrow>
                        (let normalized = scheme parsed @ ''://'' @ netloc parsed
                                          @ strip_single_slash (path parsed)
                         in Inr (Some (if query parsed \<noteq> []
                                       then normalized @ ''?'' @ query parsed
                                       else normalized))))))"

section \<open>An example environment\<close>

text \<open>
  A small network for the concrete instances below: four pages answer, every other
  request times out; the hub parser finds six records on one site, two on another and
  none elsewhere; no bracketed host is accepted.
\<close>

definition example_get :: "string \<Rightarrow> nat \<Rightarrow> exn + response" where
  "example_get u t =
     (if u = ''https://rss.example.com/a.xml''
      then Inr \<lparr>status_code = 200, content_type = Some ''application/RSS+xml'', body_text = ''hello''\<rparr>
      else if u = ''https://rss.example.com/b''
      then Inr \<lparr>status_code = 200, content_type = Some ''text/html'', body_text = ''<?XML version=1?><Feed>''\<rparr>
      else if u = ''https://rss.example.com/c''
      then Inr \<lparr>status_code = 404, content_type = Some ''application/rss+xml'', body_text = ''<rss>''\<rparr>
      else if u = ''https://rss.example.com/d''
      then Inr \<lparr>status_code = 200, content_type = None, body_text = ''<html>''\<rparr>
      else Inl TimeoutError)"

definition example_record :: "string \<Rightarrow> FeedRecord" where
  "example_record u = \<lparr>feed_category = ''General'', feed_title = ''Untitled Feed'', feed_url = u\<rparr>"

definition example_parse_feeds :: "string \<Rightarrow> exn + FeedRecord list" where
  "example_parse_feeds u =
     (if u = ''https://rss.example.com''
      then Inr (map example_record
                 [''https://rss.example.com/a.xml'', ''https://rss.example.com/b'',
                  ''https://rss.example.com/c'', ''https://rss.example.com/d'',
                  ''https://rss.example.com/e'', ''https://rss.example.com/f''])
      else if u = ''https://feeds.example.org''
      then Inr (map example_record [''https://feeds.example.org/x'', ''https://feeds.example.org/y''])
      else Inr [])"

definition no_brackets :: "string \<Rightarrow> bool" where
  "no_brackets h = False"

definition join_rel :: "string \<Rightarrow> string \<Rightarrow> exn + string" where
  "join_rel b h = Inr h"

definition no_hrefs :: "string \<Rightarrow> string list" where
  "no_hrefs html_text = []"

definition rejects_4xx_5xx :: "int \<Rightarrow> bool" where
  "rejects_4xx_5xx c = (400 \<le> c)"

definition example_env :: env where
  "example_env =
     \<lparr>bracket_ok = no_brackets, session_get = example_get, link_hrefs = no_hrefs,
      anchor_hrefs = no_hrefs, urljoin = join_rel, raises_for_status = rejects_4xx_5xx,
      parse_feeds = example_parse_feeds\<rparr>"



section \<open>Properties\<close>

subsection \<open>The hub page heuristic\<close>

lemma two_in_filter:
  assumes "a \<in> set xs" "b \<in> set xs" "a \<noteq> b" "P a" "P b"
  shows "2 \<le> length (filter P xs)"
proof -
  have "{a, b} \<subseteq> set (filter P xs)" using assms by simp
  then have "card {a, b} \<le> card (set (filter P xs))" by (simp add: card_mono)
  also have "\<dots> \<le> length (filter P xs)" by (rule card_length)
  finally show ?thesis using assms(3) by simp
qed

lemma hub_main: "looks_like_hub_page b
     = (2 \<le> indicator_count (py_lower b) \<or> 3 \<le> feed_link_count (py_lower b))"
  by (simp add: looks_like_hub_page_def Let_def)

lemma hub_two: "i1 \<in> set hub_indicators \<Longrightarrow> i2 \<in> set hub_indicators \<Longrightarrow> i1 \<noteq> i2 \<Longrightarrow>
       contains (py_lower b) i1 \<Longrightarrow> contains (py_lower b) i2 \<Longrightarrow> 2 \<le> indicator_count (py_lower b)"
  unfolding indicator_count_def by (rule two_in_filter)

lemma hub_links: "3 \<le> py_count s ''.xml'' \<Longrightarrow> 3 \<le> feed_link_count s"
  unfolding feed_link_count_def by (rule trans_le_add1, rule trans_le_add1, rule trans_le_add1)


text \<open>
  Claim C7. \<open>looks_like_hub_page\<close> holds of a body exactly when at least 2 of the hub
  indicators occur in its lower-cased text or its feed-link count is at least 3. So it
  holds of a body with two distinct indicators and no \<open>.xml\<close>, and of a body with no
  indicator and three or more \<open>.xml\<close>; it fails when the indicator count is 1 and the
  feed-link count is 2.
\<close>

theorem looks_like_hub_page_threshold:
  "looks_like_hub_page b
     = (2 \<le> indicator_count (py_lower b) \<or> 3 \<le> feed_link_count (py_lower b))
   \<and> (i1 \<in> set hub_indicators \<and> i2 \<in> set hub_indicators \<and> i1 \<noteq> i2
        \<and> contains (py_lower b) i1 \<and> contains (py_lower b) i2
        \<and> py_count (py_lower b) ''.xml'' = 0
      \<longrightarrow> looks_like_hub_page b)
   \<and> (indicator_count (py_lower b) = 0 \<and> 3 \<le> py_count (py_lower b) ''.xml''
      \<longrightarrow> looks_like_hub_page b)
   \<and> (indicator_count (py_lower b) = 1 \<and> feed_link_count (py_lower b) = 2
      \<longrightarrow> \<not> looks_like_hub_page b)"
proof (intro conjI impI)
  show "looks_like_hub_page b
     = (2 \<le> indicator_count (py_lower b) \<or> 3 \<le> feed_link_count (py_lower b))"
    by (rule hub_main)
next
  assume "i1 \<in> set hub_indicators \<and> i2 \<in> set hub_indicators \<and> i1 \<noteq> i2
        \<and> contains (py_lower b) i1 \<and> contains (py_lower b) i2
        \<and> py_count (py_lower b) ''.xml'' = 0"
  then have "2 \<le> indicator_count (py_lower b)" by (blast intro: hub_two)
  then show "looks_like_hub_page b" unfolding hub_main by (rule disjI1)
next
  assume "indicator_count (py_lower b) = 0 \<and> 3 \<le> py_count (py_lower b) ''.xml''"
  then have "3 \<le> feed_link_count (py_lower b)" by (blast intro: hub_links)
  then show "looks_like_hub_page b" unfolding hub_main by (rule disjI2)
next
  assume a: "indicator_count (py_lower b) = 1 \<and> feed_link_count (py_lower b) = 2"
  define m where "m = indicator_count (py_lower b)"
  define n where "n = feed_link_count (py_lower b)"
  from a have "m = 1" "n = 2" by (simp_all only: m_def n_def)
  then have "\<not> (2 \<le> m \<or> 3 \<le> n)" by simp
  then show "\<not> looks_like_hub_page b" unfolding hub_main m_def n_def .
qed

text \<open>The three cases of claim C7 on concrete bodies.\<close>

theorem looks_like_hub_page_threshold_witness:
  "looks_like_hub_page ''Our RSS Feed list: Subscribe to the news''
   \<and> py_count (py_lower ''Our RSS Feed list: Subscribe to the news'') ''.xml'' = 0
   \<and> looks_like_hub_page ''/a.xml /b.xml /c.xml''
   \<and> indicator_count (py_lower ''/a.xml /b.xml /c.xml'') = 0
   \<and> \<not> looks_like_hub_page ''Syndication: /a.xml /b.xml''
   \<and> indicator_count (py_lower ''Syndication: /a.xml /b.xml'') = 1
   \<and> feed_link_count (py_lower ''Syndication: /a.xml /b.xml'') = 2"
proof -
  have h1: "''rss feed'' \<in> set hub_indicators \<and> ''subscribe to'' \<in> set hub_indicators
      \<and> ''rss feed'' \<noteq> ''subscribe to''
      \<and> contains (py_lower ''Our RSS Feed list: Subscribe to the news'') ''rss feed''
      \<and> contains (py_lower ''Our RSS Feed list: Subscribe to the news'') ''subscribe to''
      \<and> py_count (py_lower ''Our RSS Feed list: Subscribe to the news'') ''.xml'' = 0"
    by code_simp
  have h2: "indicator_count (py_lower ''/a.xml /b.xml /c.xml'') = 0
      \<and> 3 \<le> py_count (py_lower ''/a.xml /b.xml /c.xml'') ''.xml''"
    by code_simp
  have h3: "indicator_count (py_lower ''Syndication: /a.xml /b.xml'') = 1
      \<and> feed_link_count (py_lower ''Syndication: /a.xml /b.xml'') = 2"
    by code_simp
  note t1 = looks_like_hub_page_threshold [of "''Our RSS Feed list: Subscribe to the news''"
        "''rss feed''" "''subscribe to''"]
  note t2 = looks_like_hub_page_threshold [of "''/a.xml /b.xml /c.xml''"]
  note t3 = looks_like_hub_page_threshold [of "''Syndication: /a.xml /b.xml''"]
  have c1: "looks_like_hub_page ''Our RSS Feed list: Subscribe to the news''"
    using t1 [THEN conjunct2, THEN conjunct1] h1 by (rule mp)
  have c2: "looks_like_hub_page ''/a.xml /b.xml /c.xml''"
    using t2 [THEN conjunct2, THEN conjunct2, THEN conjunct1] h2 by (rule mp)
  have c3: "\<not> looks_like_hub_page ''Syndication: /a.xml /b.xml''"
    using t3 [THEN conjunct2, THEN conjunct2, THEN conjunct2] h3 by (rule mp)
  from h1 have h1': "py_count (py_lower ''Our RSS Feed list: Subscribe to the news'') ''.xml'' = 0"
    by (elim conjE)
  from h2 have h2': "indicator_count (py_lower ''/a.xml /b.xml /c.xml'') = 0" by (elim conjE)
  show ?thesis using c1 h1' c2 h2' c3 h3 by (intro conjI) (elim conjE; assumption)+
qed

subsection \<open>The feed validator\<close>

lemma check_feed_Inr: "\<exists>b. check_feed e u = Inr b"
  unfolding check_feed_def by (cases "check_feed_try e u") (auto split: exn.splits)

lemma check_feed_raise: "session_get e u 5 = Inl x \<Longrightarrow> check_feed e u = Inr False"
  unfolding check_feed_def check_feed_try_def by (cases x) simp_all

lemma check_feed_resp:
  "session_get e u 5 = Inr r \<Longrightarrow>
   check_feed e u =
     Inr (if status_code r \<noteq> 200 then False
          else if contains_any (content_type_lower r) [''xml'', ''rss'', ''atom''] then True
          else contains_any (py_lower (take 500 (body_text r))) [''<rss'', ''<feed'', ''<?xml'', ''<atom''])"
  by (simp add: check_feed_def check_feed_try_def content_type_words_def feed_markers_def)

text \<open>
  Claim C3. \<open>_check_feed\<close> never raises: it always returns a truth value. A failed
  request gives \<open>False\<close>; so does every status other than 200, whatever the body. With
  status 200 it gives \<open>True\<close> when the lower-cased \<open>Content-Type\<close> contains \<open>xml\<close>,
  \<open>rss\<close> or \<open>atom\<close>, and otherwise \<open>True\<close> exactly when one of \<open><rss\<close>, \<open><feed\<close>,
  \<open><?xml\<close>, \<open><atom\<close> occurs in the lower-cased first 500 characters of the body.
\<close>

theorem check_feed_classifies:
  "(\<exists>b. check_feed e u = Inr b)
   \<and> (\<forall>x. session_get e u 5 = Inl x \<longrightarrow> check_feed e u = Inr False)
   \<and> (\<forall>r. session_get e u 5 = Inr r \<longrightarrow>
        (status_code r \<noteq> 200 \<longrightarrow> check_feed e u = Inr False)
        \<and> (status_code r = 200
             \<and> contains_any (py_lower (case content_type r of None \<Rightarrow> [] | Some h \<Rightarrow> h))
                  [''xml'', ''rss'', ''atom'']
           \<longrightarrow> check_feed e u = Inr True)
        \<and> (status_code r = 200
             \<and> \<not> contains_any (py_lower (case content_type r of None \<Rightarrow> [] | Some h \<Rightarrow> h))
                    [''xml'', ''rss'', ''atom'']
           \<longrightarrow> check_feed e u
                 = Inr (contains_any (py_lower (take 500 (body_text r)))
                          [''<rss'', ''<feed'', ''<?xml'', ''<atom''])))"
proof (intro conjI allI impI)
  show "\<exists>b. check_feed e u = Inr b" by (rule check_feed_Inr)
next
  fix x assume "session_get e u 5 = Inl x"
  then show "check_feed e u = Inr False" by (rule check_feed_raise)
next
  fix r assume "session_get e u 5 = Inr r" "status_code r \<noteq> 200"
  then show "check_feed e u = Inr False" by (simp add: check_feed_resp)
next
  fix r assume g: "session_get e u 5 = Inr r"
    and h: "status_code r = 200
             \<and> contains_any (py_lower (case content_type r of None \<Rightarrow> [] | Some h \<Rightarrow> h))
                  [''xml'', ''rss'', ''atom'']"
  from h have "status_code r = 200" "contains_any (content_type_lower r) [''xml'', ''rss'', ''atom'']"
    by (simp_all add: content_type_lower_def)
  then show "check_feed e u = Inr True"
    by (simp add: check_feed_resp [OF g])
next
  fix r assume g: "session_get e u 5 = Inr r"
    and h: "status_code r = 200
             \<and> \<not> contains_any (py_lower (case content_type r of None \<Rightarrow> [] | Some h \<Rightarrow> h))
                  [''xml'', ''rss'', ''atom'']"
  from h have "status_code r = 200" "\<not> contains_any (content_type_lower r) [''xml'', ''rss'', ''atom'']"
    by (simp_all add: content_type_lower_def)
  then show "check_feed e u
                 = Inr (contains_any (py_lower (take 500 (body_text r)))
                          [''<rss'', ''<feed'', ''<?xml'', ''<atom''])"
    by (simp add: check_feed_resp [OF g])
qed




text \<open>Claim C3 on the example network: a feed by its content type, a feed by its body,
  a 404 with a feed body, a page that is no feed, and a request that times out.\<close>

theorem check_feed_classifies_witness:
  "(\<exists>b. check_feed example_env ''https://rss.example.com/a.xml'' = Inr b)
   \<and> check_feed example_env ''https://rss.example.com/a.xml'' = Inr True
   \<and> check_feed example_env ''https://rss.example.com/b'' = Inr True
   \<and> check_feed example_env ''https://rss.example.com/c'' = Inr False
   \<and> check_feed example_env ''https://rss.example.com/d'' = Inr False
   \<and> check_feed example_env ''https://rss.example.com/e'' = Inr False"
proof -
  let ?ra = "\<lparr>status_code = 200, content_type = Some ''application/RSS+xml'', body_text = ''hello''\<rparr>"
  let ?rb = "\<lparr>status_code = 200, content_type = Some ''text/html'', body_text = ''<?XML version=1?><Feed>''\<rparr>"
  let ?rc = "\<lparr>status_code = 404, content_type = Some ''application/rss+xml'', body_text = ''<rss>''\<rparr>"
  let ?rd = "\<lparr>status_code = 200, content_type = None, body_text = ''<html>''\<rparr>"
  have ga: "session_get example_env ''https://rss.example.com/a.xml'' 5 = Inr ?ra"
    by code_simp
  have gb: "session_get example_env ''https://rss.example.com/b'' 5 = Inr ?rb"
    by code_simp
  have gc: "session_get example_env ''https://rss.example.com/c'' 5 = Inr ?rc"
    by code_simp
  have gd: "session_get example_env ''https://rss.example.com/d'' 5 = Inr ?rd"
    by code_simp
  have ge: "session_get example_env ''https://rss.example.com/e'' 5 = Inl TimeoutError"
    by code_simp
  have ha: "status_code ?ra = 200
      \<and> contains_any (py_lower (case content_type ?ra of None \<Rightarrow> [] | Some h \<Rightarrow> h))
           [''xml'', ''rss'', ''atom'']"
    by code_simp
  have hb: "status_code ?rb = 200
      \<and> \<not> contains_any (py_lower (case content_type ?rb of None \<Rightarrow> [] | Some h \<Rightarrow> h))
           [''xml'', ''rss'', ''atom'']"
    by code_simp
  have hb': "contains_any (py_lower (take 500 (body_text ?rb))) [''<rss'', ''<feed'', ''<?xml'', ''<atom''] = True"
    by code_simp
  have hc: "status_code ?rc \<noteq> 200" by code_simp
  have hd: "status_code ?rd = 200
      \<and> \<not> contains_any (py_lower (case content_type ?rd of None \<Rightarrow> [] | Some h \<Rightarrow> h))
           [''xml'', ''rss'', ''atom'']"
    by code_simp
  have hd': "contains_any (py_lower (take 500 (body_text ?rd))) [''<rss'', ''<feed'', ''<?xml'', ''<atom''] = False"
    by code_simp
  note ta = check_feed_classifies [of example_env "''https://rss.example.com/a.xml''"]
  note tb = check_feed_classifies [of example_env "''https://rss.example.com/b''"]
  note tc = check_feed_classifies [of example_env "''https://rss.example.com/c''"]
  note td = check_feed_classifies [of example_env "''https://rss.example.com/d''"]
  note te = check_feed_classifies [of example_env "''https://rss.example.com/e''"]
  note ra = ta [THEN conjunct2, THEN conjunct2, THEN spec, THEN mp, OF ga]
  note rb = tb [THEN conjunct2, THEN conjunct2, THEN spec, THEN mp, OF gb]
  note rc = tc [THEN conjunct2, THEN conjunct2, THEN spec, THEN mp, OF gc]
  note rd = td [THEN conjunct2, THEN conjunct2, THEN spec, THEN mp, OF gd]
  have c0: "\<exists>b. check_feed example_env ''https://rss.example.com/a.xml'' = Inr b"
    using ta by (rule conjunct1)
  have ca: "check_feed example_env ''https://rss.example.com/a.xml'' = Inr True"
    by (rule ra [THEN conjunct2, THEN conjunct1, THEN mp, OF ha])
  have cb: "check_feed example_env ''https://rss.example.com/b'' = Inr True"
    by (rule rb [THEN conjunct2, THEN conjunct2, THEN mp, OF hb, unfolded hb'])
  have cc: "check_feed example_env ''https://rss.example.com/c'' = Inr False"
    by (rule rc [THEN conjunct1, THEN mp, OF hc])
  have cd: "check_feed example_env ''https://rss.example.com/d'' = Inr False"
    by (rule rd [THEN conjunct2, THEN conjunct2, THEN mp, OF hd, unfolded hd'])
  have ce: "check_feed example_env ''https://rss.example.com/e'' = Inr False"
    by (rule te [THEN conjunct2, THEN conjunct1, THEN spec, THEN mp, OF ge])
  show ?thesis using c0 ca cb cc cd ce by (intro conjI)
qed

subsection \<open>The route taken by the orchestrator\<close>

lemma nu1: "normalize_url ok ''news.example.com/rss'' = Inr ''https://news.example.com''"
  by code_simp

lemma nu2: "normalize_url ok ''https://[example.com'' = Inl ValueError"
  by code_simp

lemma hp1: "is_hub_page ''news.example.com/rss'' = True"
  by code_simp

lemma hp2: "is_hub_page ''https://news.example.com'' = False"
  by code_simp

lemma ne1: "(''https://news.example.com'' = []) = False"
  by code_simp

lemma join_all_parse_feeds: "join_all (e\<lparr>parse_feeds := pf\<rparr>) u hs = join_all e u hs"
  by (induction hs) (simp_all cong: sum.case_cong)

text \<open>
  Claim C1, on its own input \<open>news.example.com/rss\<close>. The hub check holds of the raw
  input, but \<open>process_website\<close> applies it to the normalized site URL, which has lost
  the path: there the check fails, the generic route is taken, and the result does not
  depend on what the hub parser would return.
\<close>

theorem hub_check_sees_no_path:
  "is_hub_page ''news.example.com/rss''
   \<and> normalize_url (bracket_ok e) ''news.example.com/rss'' = Inr ''https://news.example.com''
   \<and> \<not> is_hub_page ''https://news.example.com''
   \<and> discover e ''https://news.example.com'' = generic_route e ''https://news.example.com''
   \<and> process_website e ''news.example.com/rss''
       = process_website (e\<lparr>parse_feeds := pf\<rparr>) ''news.example.com/rss''"
proof -
  have d: "discover e' ''https://news.example.com'' = generic_route e' ''https://news.example.com''" for e'
    unfolding discover_def hp2 by (rule if_False)
  have cf: "check_feed (e\<lparr>parse_feeds := pf\<rparr>) = check_feed e"
    by (rule ext) (simp add: check_feed_def check_feed_try_def)
  have st: "strategies (e\<lparr>parse_feeds := pf\<rparr>) = strategies e"
    by (intro ext) (simp add: strategies_def try_cms_paths_def
        extract_from_link_tags_def extract_from_anchor_tags_def try_common_paths_def
        try_nested_paths_def confirmed_feeds_def cf join_all_parse_feeds
        cong: sum.case_cong option.case_cong if_cong)
  have g: "generic_route (e\<lparr>parse_feeds := pf\<rparr>) u = generic_route e u" for u
    by (simp add: generic_route_def find_feeds_def st cong: if_cong sum.case_cong)
  have p: "process_website e' ''news.example.com/rss'' =
      Inr \<lparr>website = ''https://news.example.com'',
           rss = (let feeds = (case generic_route e' ''https://news.example.com'' of
                            Inl TimeoutError \<Rightarrow> []
                          | Inl _ \<Rightarrow> []
                          | Inr fs \<Rightarrow> fs)
             in if feeds \<noteq> [] then py_join ''; '' feeds else ''Not found'')\<rparr>" 
    if "bracket_ok e' = bracket_ok e" for e'
    unfolding process_website_def that nu1 d ne1 sum.case if_False Let_def ..
  have "process_website e ''news.example.com/rss''
       = process_website (e\<lparr>parse_feeds := pf\<rparr>) ''news.example.com/rss''"
    by (simp only: p [of e, OF refl] p [of "e\<lparr>parse_feeds := pf\<rparr>", simplified] g)
  then show ?thesis using hp1 hp2 nu1 d by simp
qed

text \<open>
  Claim C5, on the site \<open>https://[example.com\<close>. \<open>normalize_url\<close> is called before the
  \<open>try\<close>; \<open>urlparse\<close> raises \<open>ValueError\<close> on the unmatched bracket, the exception leaves
  \<open>process_website\<close>, and \<open>process_all\<close> returns one result for two sites.
\<close>

theorem bracket_site_drops_result:
  "process_website e ''https://[example.com'' = Inl ValueError
   \<and> process_all e [''https://[example.com'', ''example.com''] = process_all e [''example.com'']
   \<and> length (process_all e [''https://[example.com'', ''example.com'']) = 1"
proof -
  have a: "process_website e ''https://[example.com'' = Inl ValueError"
    unfolding process_website_def nu2 by simp
  have b: "\<exists>r. process_website e s = Inr r" if "normalize_url (bracket_ok e) s = Inr u" for s u
    unfolding process_website_def that by (simp add: Let_def)
  have c: "normalize_url ok ''example.com'' = Inr ''https://example.com''" for ok
    by code_simp
  from b [OF c] obtain r where r: "process_website e ''example.com'' = Inr r" by blast
  show ?thesis by (simp add: a r)
qed

subsection \<open>Parsing a URL that starts with http:// or https://\<close>

lemma startswith_iff: "startswith s p \<longleftrightarrow> (\<exists>r. s = p @ r)"
  by (induction s p rule: startswith.induct) auto

lemma has_http_prefix_cases:
  "has_http_prefix s \<longleftrightarrow> (\<exists>r. s = ''http://'' @ r) \<or> (\<exists>r. s = ''https://'' @ r)"
  unfolding has_http_prefix_def startswith_iff ..

lemma remove_unsafe_append: "remove_unsafe (a @ b) = remove_unsafe a @ remove_unsafe b"
  by (simp add: remove_unsafe_def)

lemma remove_unsafe_idem: "remove_unsafe (remove_unsafe a) = remove_unsafe a"
  by (simp add: remove_unsafe_def)

lemma split_scheme_http: "split_scheme (''http://'' @ r) = (''http'', ''//'' @ r)"
  by (simp add: split_scheme_def ascii_letters_def scheme_chars_def py_lower_def lower_char_def)

lemma split_scheme_https: "split_scheme (''https://'' @ r) = (''https'', ''//'' @ r)"
  by (simp add: split_scheme_def ascii_letters_def scheme_chars_def py_lower_def lower_char_def)

lemma pre_http: "remove_unsafe (lstrip_c0 (''http://'' @ r)) = ''http://'' @ remove_unsafe r"
  by (simp add: remove_unsafe_def lstrip_c0_def)

lemma pre_https: "remove_unsafe (lstrip_c0 (''https://'' @ r)) = ''https://'' @ remove_unsafe r"
  by (simp add: remove_unsafe_def lstrip_c0_def)


lemma urlsplit_prefixed:
  assumes "sch = ''http'' \<or> sch = ''https''"
  shows "urlsplit ok (sch @ ''://'' @ rest) =
     (let nl = takeWhile (\<lambda>c. \<not> netloc_delim c) (remove_unsafe rest);
          url3 = dropWhile (\<lambda>c. \<not> netloc_delim c) (remove_unsafe rest)
      in if (CHR ''['' \<in> set nl \<and> CHR '']'' \<notin> set nl) \<or> (CHR '']'' \<in> set nl \<and> CHR ''['' \<notin> set nl)
         then Inl ValueError
         else if CHR ''['' \<in> set nl \<and> CHR '']'' \<in> set nl \<and> \<not> ok (bracketed_host nl)
         then Inl ValueError
         else (let (url4, frag) = split_first CHR ''#'' url3;
                   (url5, qry) = split_first CHR ''?'' url4
               in Inr (sch, nl, url5, qry, frag)))"
proof -
  from assms show ?thesis
  proof
    assume s: "sch = ''http''"
    have "sch @ ''://'' @ rest = ''http://'' @ rest" by (simp add: s)
    then show ?thesis
      unfolding urlsplit_def
      by (simp only: pre_http split_scheme_http Let_def prod.case)
         (simp add: splitnetloc_def Let_def s)
  next
    assume s: "sch = ''https''"
    have "sch @ ''://'' @ rest = ''https://'' @ rest" by (simp add: s)
    then show ?thesis
      unfolding urlsplit_def
      by (simp only: pre_https split_scheme_https Let_def prod.case)
         (simp add: splitnetloc_def Let_def s)
  qed
qed


lemma split_first_absent: "c \<notin> set x \<Longrightarrow> split_first c x = (x, [])"
  by (simp add: split_first_def)

lemma split_first_at:
  assumes "c \<notin> set a"
  shows "split_first c (a @ c # b) = (a, b)"
proof -
  have d: "\<And>d. d \<in> set a \<Longrightarrow> d \<noteq> c" using assms by auto
  have "takeWhile (\<lambda>d. d \<noteq> c) (a @ c # b) = a"
    using d by (simp add: takeWhile_append2)
  moreover have "dropWhile (\<lambda>d. d \<noteq> c) (a @ c # b) = c # b"
    using d by (simp add: dropWhile_append2)
  ultimately show ?thesis by (simp add: split_first_def)
qed

lemma split_first_fst_free: "c \<notin> set (fst (split_first c x))"
  by (auto simp: split_first_def dest: set_takeWhileD)

lemma split_first_fst_subset: "set (fst (split_first c x)) \<subseteq> set x"
  by (auto simp: split_first_def dest: set_takeWhileD)

lemma split_first_snd_subset: "set (snd (split_first c x)) \<subseteq> set x"
  by (auto simp: split_first_def dest: in_set_dropD set_dropWhileD)

lemma split_first_fst_hd:
  "fst (split_first c x) \<noteq> [] \<Longrightarrow> hd (fst (split_first c x)) = hd x"
  by (cases x) (auto simp: split_first_def)

lemma splitparams_fst_subset: "set (fst (splitparams x)) \<subseteq> set x"
  by (auto simp: splitparams_def Let_def dest: in_set_takeD)

lemma rstrip_slash_snoc:
  "rstrip_slash (xs @ [a]) = (if a = CHR ''/'' then rstrip_slash xs else xs @ [a])"
  by (simp add: rstrip_slash_def)

lemma rstrip_slash_Nil [simp]: "rstrip_slash [] = []"
  by (simp add: rstrip_slash_def)

lemma rstrip_slash_subset: "set (rstrip_slash x) \<subseteq> set x"
  by (auto simp: rstrip_slash_def dest: set_dropWhileD)

lemma rstrip_slash_last: "rstrip_slash x \<noteq> [] \<Longrightarrow> last (rstrip_slash x) \<noteq> CHR ''/''"
  by (induction x rule: rev_induct) (auto simp: rstrip_slash_snoc)

lemma rstrip_slash_fixed: "x = [] \<or> last x \<noteq> CHR ''/'' \<Longrightarrow> rstrip_slash x = x"
  by (cases x rule: rev_cases) (auto simp: rstrip_slash_snoc)

lemma rstrip_slash_idem: "rstrip_slash (rstrip_slash x) = rstrip_slash x"
  by (rule rstrip_slash_fixed) (use rstrip_slash_last in blast)

lemma rstrip_slash_hd: "rstrip_slash x \<noteq> [] \<Longrightarrow> hd (rstrip_slash x) = hd x"
  by (induction x rule: rev_induct) (auto simp: rstrip_slash_snoc hd_append)

lemma http_in_uses_params: "''http'' \<in> set uses_params" "''https'' \<in> set uses_params"
  by (simp_all add: uses_params_def)

lemma urlparse_prefixed:
  assumes "sch = ''http'' \<or> sch = ''https''"
  shows "urlparse ok (sch @ ''://'' @ rest) =
     (let nl = takeWhile (\<lambda>c. \<not> netloc_delim c) (remove_unsafe rest);
          url3 = dropWhile (\<lambda>c. \<not> netloc_delim c) (remove_unsafe rest)
      in if (CHR ''['' \<in> set nl \<and> CHR '']'' \<notin> set nl) \<or> (CHR '']'' \<in> set nl \<and> CHR ''['' \<notin> set nl)
         then Inl ValueError
         else if CHR ''['' \<in> set nl \<and> CHR '']'' \<in> set nl \<and> \<not> ok (bracketed_host nl)
         then Inl ValueError
         else (let url4 = fst (split_first CHR ''#'' url3);
                   url5 = fst (split_first CHR ''?'' url4)
               in Inr \<lparr>scheme = sch, netloc = nl,
                        path = (if CHR '';'' \<in> set url5 then fst (splitparams url5) else url5),
                        params = (if CHR '';'' \<in> set url5 then snd (splitparams url5) else []),
                        query = snd (split_first CHR ''?'' url4),
                        fragment = snd (split_first CHR ''#'' url3)\<rparr>))"
proof -
  have m: "sch \<in> set uses_params" using assms http_in_uses_params by auto
  show ?thesis
    unfolding urlparse_def urlsplit_prefixed [OF assms]
    by (simp add: Let_def m split: prod.splits)
qed


lemma has_http_prefix_obtain:
  assumes "has_http_prefix u"
  obtains sch rest where "sch = ''http'' \<or> sch = ''https''" "u = sch @ ''://'' @ rest"
proof -
  from assms consider r where "u = ''http://'' @ r" | r where "u = ''https://'' @ r"
    unfolding has_http_prefix_cases by blast
  then show ?thesis
  proof cases
    case 1
    then have "u = ''http'' @ ''://'' @ r" by simp
    then show ?thesis using that by blast
  next
    case 2
    then have "u = ''https'' @ ''://'' @ r" by simp
    then show ?thesis using that by blast
  qed
qed

lemma remove_unsafe_subset: "set x \<subseteq> set (remove_unsafe r) \<Longrightarrow> remove_unsafe x = x"
  unfolding remove_unsafe_def by (rule filter_True) auto

lemma remove_unsafe_set: "set (remove_unsafe r) \<subseteq> set r"
  by (simp add: remove_unsafe_def)

lemma urlparse_facts:
  assumes sch: "sch = ''http'' \<or> sch = ''https''"
    and P: "urlparse ok (sch @ ''://'' @ rest) = Inr P"
  shows "scheme P = sch"
    and "\<forall>c\<in>set (netloc P). \<not> netloc_delim c"
    and "\<not> ((CHR ''['' \<in> set (netloc P) \<and> CHR '']'' \<notin> set (netloc P))
            \<or> (CHR '']'' \<in> set (netloc P) \<and> CHR ''['' \<notin> set (netloc P)))"
    and "\<not> (CHR ''['' \<in> set (netloc P) \<and> CHR '']'' \<in> set (netloc P)
            \<and> \<not> ok (bracketed_host (netloc P)))"
    and "CHR ''#'' \<notin> set (path P)" and "CHR ''?'' \<notin> set (path P)"
    and "CHR ''#'' \<notin> set (query P)"
    and "set (netloc P) \<subseteq> set (remove_unsafe rest)"
    and "set (path P) \<subseteq> set (remove_unsafe rest)"
    and "set (query P) \<subseteq> set (remove_unsafe rest)"
    and "CHR '';'' \<notin> set rest \<Longrightarrow> path P = [] \<or> hd (path P) = CHR ''/''"
    and "CHR '';'' \<notin> set rest \<Longrightarrow> CHR '';'' \<notin> set (path P)"
proof -
  define r where "r = remove_unsafe rest"
  define nl where "nl = takeWhile (\<lambda>c. \<not> netloc_delim c) r"
  define url3 where "url3 = dropWhile (\<lambda>c. \<not> netloc_delim c) r"
  define url4 where "url4 = fst (split_first CHR ''#'' url3)"
  define url5 where "url5 = fst (split_first CHR ''?'' url4)"
  note defs = r_def nl_def url3_def url4_def url5_def
  from P have b1: "\<not> ((CHR ''['' \<in> set nl \<and> CHR '']'' \<notin> set nl) \<or> (CHR '']'' \<in> set nl \<and> CHR ''['' \<notin> set nl))"
    unfolding urlparse_prefixed [OF sch] defs Let_def by (auto split: if_splits)
  from P have b2: "\<not> (CHR ''['' \<in> set nl \<and> CHR '']'' \<in> set nl \<and> \<not> ok (bracketed_host nl))"
    unfolding urlparse_prefixed [OF sch] defs Let_def by (auto split: if_splits)
  from P b1 b2 have Peq: "P = \<lparr>scheme = sch, netloc = nl,
                        path = (if CHR '';'' \<in> set url5 then fst (splitparams url5) else url5),
                        params = (if CHR '';'' \<in> set url5 then snd (splitparams url5) else []),
                        query = snd (split_first CHR ''?'' url4),
                        fragment = snd (split_first CHR ''#'' url3)\<rparr>"
    unfolding urlparse_prefixed [OF sch] defs Let_def by (simp split: if_splits)
  have s3: "set url3 \<subseteq> set r" unfolding url3_def by (auto dest: set_dropWhileD)
  have s4: "set url4 \<subseteq> set url3" unfolding url4_def by (rule split_first_fst_subset)
  have s5: "set url5 \<subseteq> set url4" unfolding url5_def by (rule split_first_fst_subset)
  have h4: "CHR ''#'' \<notin> set url4" unfolding url4_def by (rule split_first_fst_free)
  have q5: "CHR ''?'' \<notin> set url5" unfolding url5_def by (rule split_first_fst_free)
  have pth: "set (path P) \<subseteq> set url5"
    using splitparams_fst_subset [of url5] by (auto simp: Peq)
  show "scheme P = sch" by (simp add: Peq)
  show "\<forall>c\<in>set (netloc P). \<not> netloc_delim c"
    by (auto simp: Peq nl_def dest: set_takeWhileD)
  show "\<not> ((CHR ''['' \<in> set (netloc P) \<and> CHR '']'' \<notin> set (netloc P))
            \<or> (CHR '']'' \<in> set (netloc P) \<and> CHR ''['' \<notin> set (netloc P)))"
    using b1 by (simp add: Peq)
  show "\<not> (CHR ''['' \<in> set (netloc P) \<and> CHR '']'' \<in> set (netloc P)
            \<and> \<not> ok (bracketed_host (netloc P)))"
    using b2 by (simp add: Peq)
  show "CHR ''#'' \<notin> set (path P)" using pth s5 h4 by auto
  show "CHR ''?'' \<notin> set (path P)" using pth q5 by auto
  show "CHR ''#'' \<notin> set (query P)"
    using split_first_snd_subset [of "CHR ''?''" url4] h4 by (auto simp: Peq)
  show "set (netloc P) \<subseteq> set (remove_unsafe rest)"
    by (auto simp: Peq nl_def r_def dest: set_takeWhileD)
  show "set (path P) \<subseteq> set (remove_unsafe rest)"
    using pth s5 s4 s3 by (auto simp: r_def)
  show "set (query P) \<subseteq> set (remove_unsafe rest)"
    using split_first_snd_subset [of "CHR ''?''" url4] s4 s3 by (auto simp: Peq r_def)
  assume semi: "CHR '';'' \<notin> set rest"
  then have "CHR '';'' \<notin> set url5"
    using s5 s4 s3 remove_unsafe_set [of rest] by (auto simp: r_def)
  then have p5: "path P = url5" by (simp add: Peq)
  have "url3 = [] \<or> netloc_delim (hd url3)"
    unfolding url3_def using hd_dropWhile [of "\<lambda>c. \<not> netloc_delim c" r] by auto
  moreover have "url5 \<noteq> [] \<Longrightarrow> hd url5 = hd url3 \<and> url3 \<noteq> []"
    using split_first_fst_hd [of "CHR ''?''" url4] split_first_fst_hd [of "CHR ''#''" url3]
      s5 s4 unfolding url5_def url4_def by (cases "fst (split_first CHR ''#'' url3) = []") auto
  moreover have "url5 \<noteq> [] \<Longrightarrow> hd url5 \<noteq> CHR ''?'' \<and> hd url5 \<noteq> CHR ''#''"
    using q5 h4 s5 by (cases url5) auto
  ultimately show "path P = [] \<or> hd (path P) = CHR ''/''"
    unfolding p5 netloc_delim_def by (cases "url5 = []") auto
  show "CHR '';'' \<notin> set (path P)" using \<open>CHR '';'' \<notin> set url5\<close> p5 by simp
qed


lemma takeWhile_delim_head:
  "t = [] \<or> netloc_delim (hd t) \<Longrightarrow> takeWhile (\<lambda>c. \<not> netloc_delim c) t = []"
  by (cases t) auto

lemma dropWhile_delim_head:
  "t = [] \<or> netloc_delim (hd t) \<Longrightarrow> dropWhile (\<lambda>c. \<not> netloc_delim c) t = t"
  by (cases t) auto

lemma urlparse_reassembled:
  assumes sch: "sch = ''http'' \<or> sch = ''https''"
    and nl: "\<forall>c\<in>set nl. \<not> netloc_delim c"
    and b1: "\<not> ((CHR ''['' \<in> set nl \<and> CHR '']'' \<notin> set nl) \<or> (CHR '']'' \<in> set nl \<and> CHR ''['' \<notin> set nl))"
    and b2: "\<not> (CHR ''['' \<in> set nl \<and> CHR '']'' \<in> set nl \<and> \<not> ok (bracketed_host nl))"
    and p: "p = [] \<or> hd p = CHR ''/''"
    and ph: "CHR ''#'' \<notin> set p" and pq: "CHR ''?'' \<notin> set p" and ps: "CHR '';'' \<notin> set p"
    and qh: "CHR ''#'' \<notin> set q"
    and safe: "remove_unsafe nl = nl" "remove_unsafe p = p" "remove_unsafe q = q"
  shows "urlparse ok (sch @ ''://'' @ nl @ p @ (if q = [] then [] else ''?'' @ q))
         = Inr \<lparr>scheme = sch, netloc = nl, path = p, params = [], query = q, fragment = []\<rparr>"
proof -
  define t where "t = p @ (if q = [] then [] else ''?'' @ q)"
  have qm: "remove_unsafe (CHR ''?'' # x) = CHR ''?'' # remove_unsafe x" for x
    by (simp add: remove_unsafe_def)
  have ru: "remove_unsafe (nl @ t) = nl @ t"
    by (simp add: t_def remove_unsafe_append safe qm remove_unsafe_def [of "[]"])
  have th: "t = [] \<or> netloc_delim (hd t)"
    using p by (cases p) (auto simp: t_def netloc_delim_def)
  have nl': "\<And>c. c \<in> set nl \<Longrightarrow> \<not> netloc_delim c" using nl by blast
  have tw: "takeWhile (\<lambda>c. \<not> netloc_delim c) (nl @ t) = nl"
    using nl' by (simp add: takeWhile_append2 takeWhile_delim_head [OF th])
  have dw: "dropWhile (\<lambda>c. \<not> netloc_delim c) (nl @ t) = t"
    using nl' by (simp add: dropWhile_append2 dropWhile_delim_head [OF th])
  have hash: "CHR ''#'' \<notin> set t" using ph qh by (simp add: t_def)
  have sf1: "split_first CHR ''#'' t = (t, [])" by (rule split_first_absent [OF hash])
  have sf2: "split_first CHR ''?'' t = (p, q)"
  proof (cases "q = []")
    case True
    then show ?thesis using pq by (simp add: t_def split_first_absent)
  next
    case False
    then have "t = p @ CHR ''?'' # q" by (simp add: t_def)
    then show ?thesis using split_first_at [OF pq] by simp
  qed
  have "urlparse ok (sch @ ''://'' @ nl @ t)
         = Inr \<lparr>scheme = sch, netloc = nl, path = p, params = [], query = q, fragment = []\<rparr>"
    unfolding urlparse_prefixed [OF sch] ru tw dw Let_def sf1 sf2 fst_conv snd_conv
    using b1 b2 ps by simp
  then show ?thesis by (simp add: t_def)
qed

subsection \<open>The site URL after normalization\<close>

lemma prefixed_url_cases:
  obtains sch rest where "sch = ''http'' \<or> sch = ''https''"
    "(if \<not> has_http_prefix url then ''https://'' @ url else url) = sch @ ''://'' @ rest"
proof (cases "has_http_prefix url")
  case True
  then obtain sch rest where "sch = ''http'' \<or> sch = ''https''" "url = sch @ ''://'' @ rest"
    by (rule has_http_prefix_obtain)
  then show ?thesis using that [of sch rest] True by simp
next
  case False
  have "''https://'' @ url = ''https'' @ ''://'' @ url" by simp
  then show ?thesis using that [of "''https''" url] False by simp
qed

lemma has_http_prefix_intro:
  "sch = ''http'' \<or> sch = ''https'' \<Longrightarrow> has_http_prefix (sch @ ''://'' @ x)"
  by (auto simp: has_http_prefix_def)

lemma no_slash_rstrip: "CHR ''/'' \<notin> set x \<Longrightarrow> rstrip_slash x = x"
  by (rule rstrip_slash_fixed) (cases x rule: rev_cases, auto)

lemma normalize_url_shape:
  assumes n: "normalize_url ok raw = Inr u" and ne: "raw \<noteq> []"
  obtains sch nl where "sch = ''http'' \<or> sch = ''https''" "u = sch @ ''://'' @ nl"
    "\<forall>c\<in>set nl. \<not> netloc_delim c"
    "\<not> ((CHR ''['' \<in> set nl \<and> CHR '']'' \<notin> set nl) \<or> (CHR '']'' \<in> set nl \<and> CHR ''['' \<notin> set nl))"
    "\<not> (CHR ''['' \<in> set nl \<and> CHR '']'' \<in> set nl \<and> \<not> ok (bracketed_host nl))"
    "remove_unsafe nl = nl"
proof -
  obtain sch rest where sch: "sch = ''http'' \<or> sch = ''https''"
    and eq: "(if \<not> has_http_prefix raw then ''https://'' @ raw else raw) = sch @ ''://'' @ rest"
    by (rule prefixed_url_cases)
  from n ne obtain P where P: "urlparse ok (sch @ ''://'' @ rest) = Inr P"
    and u: "u = scheme P @ ''://'' @ rstrip_slash (netloc P)"
    unfolding normalize_url_def Let_def eq by (auto split: sum.splits)
  note f = urlparse_facts [OF sch P]
  have ns: "CHR ''/'' \<notin> set (netloc P)" using f(2) by (auto simp: netloc_delim_def)
  have u': "u = sch @ ''://'' @ netloc P" by (simp add: u f(1) no_slash_rstrip [OF ns])
  show ?thesis
    by (rule that [OF sch u' f(2) f(3) f(4) remove_unsafe_subset [OF f(8)]])
qed

lemma urlparse_origin:
  assumes n: "normalize_url ok raw = Inr u" and ne: "raw \<noteq> []"
  shows "\<exists>sch nl. (sch = ''http'' \<or> sch = ''https'') \<and> u = sch @ ''://'' @ nl
           \<and> urlparse ok u = Inr \<lparr>scheme = sch, netloc = nl, path = [], params = [],
                                    query = [], fragment = []\<rparr>"
proof -
  from n ne obtain sch nl where sch: "sch = ''http'' \<or> sch = ''https''"
    and u: "u = sch @ ''://'' @ nl"
    and nl: "\<forall>c\<in>set nl. \<not> netloc_delim c"
    and b1: "\<not> ((CHR ''['' \<in> set nl \<and> CHR '']'' \<notin> set nl) \<or> (CHR '']'' \<in> set nl \<and> CHR ''['' \<notin> set nl))"
    and b2: "\<not> (CHR ''['' \<in> set nl \<and> CHR '']'' \<in> set nl \<and> \<not> ok (bracketed_host nl))"
    and safe: "remove_unsafe nl = nl"
    by (rule normalize_url_shape)
  have e: "remove_unsafe [] = []" by (simp add: remove_unsafe_def)
  have "urlparse ok (sch @ ''://'' @ nl @ [] @ (if ([]::string) = [] then [] else ''?'' @ []))
         = Inr \<lparr>scheme = sch, netloc = nl, path = [], params = [], query = [], fragment = []\<rparr>"
    by (rule urlparse_reassembled [where p = "[]" and q = "[]"])
       (use sch nl b1 b2 safe e in simp_all)
  then show ?thesis using sch u by simp
qed

lemma normalize_url_empty: "normalize_url ok raw = Inr [] \<longleftrightarrow> raw = []"
proof
  assume a: "normalize_url ok raw = Inr []"
  show "raw = []"
  proof (rule ccontr)
    assume "raw \<noteq> []"
    with a obtain sch nl :: string where "[] = sch @ ''://'' @ nl"
      by (rule normalize_url_shape)
    then show False by simp
  qed
next
  assume "raw = []"
  then show "normalize_url ok raw = Inr []" by (simp add: normalize_url_def)
qed

lemma normalize_url_prefix:
  assumes "normalize_url ok raw = Inr u" "u \<noteq> []"
  shows "has_http_prefix u"
proof -
  have "raw \<noteq> []" using assms by (auto simp: normalize_url_def)
  with assms(1) obtain sch nl where "sch = ''http'' \<or> sch = ''https''" "u = sch @ ''://'' @ nl"
    by (rule normalize_url_shape)
  then show ?thesis using has_http_prefix_intro by blast
qed

lemma normalize_url_idem:
  assumes n: "normalize_url ok raw = Inr u"
  shows "normalize_url ok u = Inr u"
proof (cases "raw = []")
  case True
  then show ?thesis using n by (simp add: normalize_url_def)
next
  case False
  from urlparse_origin [OF n False] obtain sch nl where sch: "sch = ''http'' \<or> sch = ''https''"
    and u: "u = sch @ ''://'' @ nl"
    and p: "urlparse ok u = Inr \<lparr>scheme = sch, netloc = nl, path = [], params = [],
                                    query = [], fragment = []\<rparr>"
    by blast
  from n False obtain sch' nl' where u': "u = sch' @ ''://'' @ nl'"
    and d: "\<forall>c\<in>set nl'. \<not> netloc_delim c" and s': "sch' = ''http'' \<or> sch' = ''https''"
    by (rule normalize_url_shape) blast
  have hp: "has_http_prefix u" unfolding u by (rule has_http_prefix_intro [OF sch])
  have une: "u \<noteq> []" using u sch by auto
  have "nl = nl'" using u u' sch s' by auto
  then have "CHR ''/'' \<notin> set nl" using d by (auto simp: netloc_delim_def)
  then have r: "rstrip_slash nl = nl" by (rule no_slash_rstrip)
  have "normalize_url ok u = (case urlparse ok u of Inl e \<Rightarrow> Inl e
      | Inr parsed \<Rightarrow> Inr (scheme parsed @ ''://'' @ rstrip_slash (netloc parsed)))"
    unfolding normalize_url_def Let_def using hp une by simp
  also have "\<dots> = Inr (sch @ ''://'' @ nl)" unfolding p by (simp add: r)
  finally show ?thesis by (simp add: u)
qed

subsection \<open>The nested paths and the website field\<close>





text \<open>
  Claim C10. \<open>normalize_url\<close> returns a falsy value only for the empty input, which it
  returns as it is; \<open>process_website\<close> then reports the raw input in \<open>website\<close>, with
  \<open>Not found\<close>. On every other path that returns, \<open>website\<close> is the normalized URL,
  which starts with \<open>http://\<close> or \<open>https://\<close> and is its own normalization.
\<close>

theorem website_field_raw_when_invalid:
  "(normalize_url (bracket_ok e) raw = Inr [] \<longrightarrow>
       process_website e raw = Inr \<lparr>website = raw, rss = ''Not found''\<rparr>
       \<and> \<not> has_http_prefix raw)
   \<and> (normalize_url (bracket_ok e) raw = Inr u \<and> u \<noteq> [] \<longrightarrow>
        (\<exists>res. process_website e raw = Inr res \<and> website res = u)
        \<and> has_http_prefix u \<and> normalize_url (bracket_ok e) u = Inr u)"
proof (intro conjI impI)
  assume a: "normalize_url (bracket_ok e) raw = Inr []"
  then show "process_website e raw = Inr \<lparr>website = raw, rss = ''Not found''\<rparr>"
    by (simp add: process_website_def)
  from a have "raw = []" by (simp add: normalize_url_empty)
  then show "\<not> has_http_prefix raw" by (simp add: has_http_prefix_def)
next
  assume a: "normalize_url (bracket_ok e) raw = Inr u \<and> u \<noteq> []"
  then show "\<exists>res. process_website e raw = Inr res \<and> website res = u"
    by (simp add: process_website_def Let_def)
  from a show "has_http_prefix u" using normalize_url_prefix by blast
  from a show "normalize_url (bracket_ok e) u = Inr u" using normalize_url_idem by blast
qed

theorem website_field_raw_when_invalid_witness:
  "process_website example_env [] = Inr \<lparr>website = [], rss = ''Not found''\<rparr>
   \<and> (\<exists>res. process_website example_env ''Example.com/blog/'' = Inr res
         \<and> website res = ''https://Example.com'')"
proof -
  have h1: "normalize_url (bracket_ok example_env) [] = Inr []" by code_simp
  have h2: "normalize_url (bracket_ok example_env) ''Example.com/blog/'' = Inr ''https://Example.com''
      \<and> ''https://Example.com'' \<noteq> []" by code_simp
  note a = website_field_raw_when_invalid [THEN conjunct1, THEN mp, OF h1, THEN conjunct1]
  note b = website_field_raw_when_invalid [THEN conjunct2, THEN mp, OF h2, THEN conjunct1]
  show ?thesis by (intro conjI a b)
qed

subsection \<open>The hub route\<close>








subsection \<open>Stripping, splitting and joining\<close>

lemma dropWhile_nonempty_iff: "dropWhile P y \<noteq> [] \<longleftrightarrow> (\<exists>c\<in>set y. \<not> P c)"
  by (induction y) auto

lemma py_strip_nonempty_iff: "py_strip y \<noteq> [] \<longleftrightarrow> (\<exists>c\<in>set y. \<not> is_space c)"
proof -
  have "py_strip y \<noteq> [] \<longleftrightarrow> dropWhile is_space (rev (dropWhile is_space y)) \<noteq> []"
    by (simp add: py_strip_def)
  also have "\<dots> \<longleftrightarrow> (\<exists>c\<in>set (rev (dropWhile is_space y)). \<not> is_space c)"
    by (rule dropWhile_nonempty_iff)
  also have "\<dots> \<longleftrightarrow> (\<exists>c\<in>set (dropWhile is_space y). \<not> is_space c)"
    by simp
  also have "\<dots> \<longleftrightarrow> (\<exists>c\<in>set y. \<not> is_space c)"
  proof
    assume "\<exists>c\<in>set (dropWhile is_space y). \<not> is_space c"
    then show "\<exists>c\<in>set y. \<not> is_space c" by (auto dest: set_dropWhileD)
  next
    assume "\<exists>c\<in>set y. \<not> is_space c"
    then have ne: "dropWhile is_space y \<noteq> []" by (simp add: dropWhile_nonempty_iff)
    then have "\<not> is_space (hd (dropWhile is_space y))" by (rule hd_dropWhile)
    moreover have "hd (dropWhile is_space y) \<in> set (dropWhile is_space y)" using ne by simp
    ultimately show "\<exists>c\<in>set (dropWhile is_space y). \<not> is_space c" by blast
  qed
  finally show ?thesis .
qed

lemma py_strip_fixed:
  assumes "y \<noteq> []" "\<not> is_space (hd y)" "\<not> is_space (last y)"
  shows "py_strip y = y"
proof -
  have a: "dropWhile is_space y = y" using assms by (cases y) auto
  have "dropWhile is_space (rev y) = rev y"
    using assms by (cases y rule: rev_cases) auto
  then show ?thesis by (simp add: py_strip_def a)
qed

lemma py_strip_space_cons: "is_space c \<Longrightarrow> py_strip (c # y) = py_strip y"
  by (simp add: py_strip_def)

lemma py_strip_subset: "set (py_strip y) \<subseteq> set y"
proof -
  have "set (py_strip y) \<subseteq> set (dropWhile is_space y)"
    unfolding py_strip_def by (auto dest: set_dropWhileD)
  then show ?thesis by (auto dest: set_dropWhileD)
qed

lemma py_strip_last: "py_strip y \<noteq> [] \<Longrightarrow> \<not> is_space (last (py_strip y))"
proof -
  assume a: "py_strip y \<noteq> []"
  define z where "z = dropWhile is_space (rev (dropWhile is_space y))"
  have z: "z \<noteq> []" using a by (simp add: py_strip_def z_def)
  then have "\<not> is_space (hd z)" unfolding z_def by (rule hd_dropWhile)
  then show ?thesis using z by (simp add: py_strip_def z_def [symmetric] last_rev)
qed

lemma py_split_nonempty: "py_split sep s \<noteq> []"
  by (induction s) (auto split: list.splits)

lemma py_split_no_sep: "sep \<notin> set a \<Longrightarrow> py_split sep a = [a]"
  by (induction a) auto

lemma py_split_at: "sep \<notin> set a \<Longrightarrow> py_split sep (a @ sep # b) = a # py_split sep b"
  by (induction a) auto

lemma py_split_parts: "w \<in> set (py_split sep s) \<Longrightarrow> sep \<notin> set w"
proof (induction s arbitrary: w)
  case Nil
  then show ?case by simp
next
  case (Cons c cs)
  show ?case
  proof (cases "c = sep")
    case True
    then show ?thesis using Cons by auto
  next
    case False
    obtain v vs where v: "py_split sep cs = v # vs"
      using py_split_nonempty [of sep cs] by (cases "py_split sep cs") auto
    then show ?thesis using Cons False by auto
  qed
qed

lemma py_split_join:
  assumes "\<forall>x\<in>set (x0 # xs). CHR '';'' \<notin> set x"
  shows "py_split CHR '';'' (py_join ''; '' (x0 # xs)) = x0 # map (\<lambda>x. CHR '' '' # x) xs"
  using assms
proof (induction xs arbitrary: x0)
  case Nil
  then show ?case by (simp add: py_split_no_sep)
next
  case (Cons y ys)
  have j: "py_join ''; '' (x0 # y # ys) = x0 @ CHR '';'' # (CHR '' '' # py_join ''; '' (y # ys))"
    by simp
  have r: "py_split CHR '';'' (CHR '' '' # py_join ''; '' (y # ys))
      = (CHR '' '' # y) # map (\<lambda>x. CHR '' '' # x) ys"
    using Cons.IH [of y] Cons.prems by simp
  have s: "py_split CHR '';'' (x0 @ CHR '';'' # t) = x0 # py_split CHR '';'' t" for t
    by (rule py_split_at) (use Cons.prems in simp)
  show ?case unfolding j s r by simp
qed

lemma py_join_hd: "x \<noteq> [] \<Longrightarrow> py_join sep (x # xs) \<noteq> [] \<and> hd (py_join sep (x # xs)) = hd x"
  by (cases xs) auto

subsection \<open>The feed URL normalizer\<close>

lemma prefixed_url_subset:
  obtains sch rest where "sch = ''http'' \<or> sch = ''https''"
    "(if \<not> has_http_prefix url then ''https://'' @ url else url) = sch @ ''://'' @ rest"
    "set rest \<subseteq> set url"
proof (cases "has_http_prefix url")
  case True
  then obtain sch rest where "sch = ''http'' \<or> sch = ''https''" "url = sch @ ''://'' @ rest"
    by (rule has_http_prefix_obtain)
  then show ?thesis using that [of sch rest] True by auto
next
  case False
  have "''https://'' @ url = ''https'' @ ''://'' @ url" by simp
  then show ?thesis using that [of "''https''" url] False by simp
qed

lemma normalize_feed_url_Str:
  "normalize_feed_url ok (Str s) =
     (if py_strip s = [] then Inr None
      else case urlparse ok (if \<not> has_http_prefix (py_strip s)
                             then ''https://'' @ py_strip s else py_strip s) of
             Inl e \<Rightarrow> Inl e
           | Inr P \<Rightarrow> Inr (Some (scheme P @ ''://'' @ netloc P @ rstrip_slash (path P)
                                  @ (if query P = [] then [] else ''?'' @ query P))))"
proof -
  have e: "py_strip [] = []" by (simp add: py_strip_def)
  show ?thesis
    by (cases "s = []")
       (auto simp: normalize_feed_url_def Let_def e split: sum.splits)
qed

lemma rstrip_slash_replicate: "\<exists>n. x = rstrip_slash x @ replicate n CHR ''/''"
proof (induction x rule: rev_induct)
  case Nil
  show ?case by simp
next
  case (snoc a x)
  show ?case
  proof (cases "a = CHR ''/''")
    case True
    define y where "y = rstrip_slash x"
    from snoc obtain n where n: "x = y @ replicate n CHR ''/''" unfolding y_def by blast
    have "rstrip_slash (x @ [a]) = y" by (simp add: rstrip_slash_snoc True y_def)
    moreover have "x @ [a] = y @ replicate (Suc n) CHR ''/''"
      unfolding n True by (simp add: replicate_append_same)
    ultimately have "x @ [a] = rstrip_slash (x @ [a]) @ replicate (Suc n) CHR ''/''" by simp
    then show ?thesis by blast
  next
    case False
    then have "x @ [a] = rstrip_slash (x @ [a]) @ replicate 0 CHR ''/''"
      by (simp add: rstrip_slash_snoc)
    then show ?thesis by blast
  qed
qed

lemma sch_chars:
  assumes "sch = ''http'' \<or> sch = ''https''"
  shows "CHR ''#'' \<notin> set sch" "CHR ''?'' \<notin> set sch" "CHR '';'' \<notin> set sch"
    "\<forall>c\<in>set sch. \<not> is_space c" "sch \<noteq> []" "\<not> is_space (hd sch)"
  using assms by (auto simp: is_space_def)

text \<open>What a successful \<open>normalize_feed_url\<close> returns.\<close>

lemma normalize_feed_url_parts:
  assumes n: "normalize_feed_url ok (Str s) = Inr (Some r)"
  obtains sch rest P where "sch = ''http'' \<or> sch = ''https''"
    "set rest \<subseteq> set s"
    "urlparse ok (sch @ ''://'' @ rest) = Inr P"
    "r = sch @ ''://'' @ netloc P @ rstrip_slash (path P)
           @ (if query P = [] then [] else ''?'' @ query P)"
proof -
  have ne: "py_strip s \<noteq> []" using n by (auto simp: normalize_feed_url_Str split: if_splits)
  obtain sch rest where sch: "sch = ''http'' \<or> sch = ''https''"
    and eq: "(if \<not> has_http_prefix (py_strip s) then ''https://'' @ py_strip s else py_strip s)
             = sch @ ''://'' @ rest"
    and sub: "set rest \<subseteq> set (py_strip s)"
    by (rule prefixed_url_subset)
  from n ne obtain P where P: "urlparse ok (sch @ ''://'' @ rest) = Inr P"
    and r: "r = scheme P @ ''://'' @ netloc P @ rstrip_slash (path P)
           @ (if query P = [] then [] else ''?'' @ query P)"
    unfolding normalize_feed_url_Str eq by (auto split: sum.splits)
  have s1: "scheme P = sch" by (rule urlparse_facts(1) [OF sch P])
  have s2: "set rest \<subseteq> set s" using sub py_strip_subset [of s] by blast
  show ?thesis by (rule that [OF sch s2 P]) (simp add: r s1)
qed

lemma normalize_feed_url_prefix:
  assumes "normalize_feed_url ok (Str s) = Inr (Some r)"
  shows "has_http_prefix r"
proof -
  from assms obtain sch rest P where sch: "sch = ''http'' \<or> sch = ''https''"
    and "set rest \<subseteq> set s"
    and "urlparse ok (sch @ ''://'' @ rest) = Inr P"
    and r: "r = sch @ ''://'' @ (netloc P @ rstrip_slash (path P)
           @ (if query P = [] then [] else ''?'' @ query P))"
    by (rule normalize_feed_url_parts) simp
  show ?thesis unfolding r by (rule has_http_prefix_intro [OF sch])
qed

lemma normalize_feed_url_no_fragment:
  assumes "normalize_feed_url ok (Str s) = Inr (Some r)"
  shows "CHR ''#'' \<notin> set r"
proof -
  from assms obtain sch rest P where sch: "sch = ''http'' \<or> sch = ''https''"
    and P: "urlparse ok (sch @ ''://'' @ rest) = Inr P"
    and r: "r = sch @ ''://'' @ netloc P @ rstrip_slash (path P)
           @ (if query P = [] then [] else ''?'' @ query P)"
    by (rule normalize_feed_url_parts)
  note f = urlparse_facts [OF sch P]
  have "CHR ''#'' \<notin> set (netloc P)" using f(2) by (auto simp: netloc_delim_def)
  moreover have "CHR ''#'' \<notin> set (rstrip_slash (path P))"
    using f(5) rstrip_slash_subset [of "path P"] by blast
  ultimately show ?thesis using sch_chars(1) [OF sch] f(7) by (simp add: r)
qed

lemma normalize_feed_url_query_mark:
  assumes "normalize_feed_url ok (Str s) = Inr (Some r)"
  shows "\<exists>P. urlparse ok (if \<not> has_http_prefix (py_strip s)
                             then ''https://'' @ py_strip s else py_strip s) = Inr P
           \<and> (CHR ''?'' \<in> set r \<longleftrightarrow> query P \<noteq> [])"
proof -
  have ne: "py_strip s \<noteq> []" using assms by (auto simp: normalize_feed_url_Str split: if_splits)
  obtain sch rest where sch: "sch = ''http'' \<or> sch = ''https''"
    and eq: "(if \<not> has_http_prefix (py_strip s) then ''https://'' @ py_strip s else py_strip s)
             = sch @ ''://'' @ rest"
    by (rule prefixed_url_subset)
  from assms ne obtain P where P: "urlparse ok (sch @ ''://'' @ rest) = Inr P"
    and r: "r = scheme P @ ''://'' @ netloc P @ rstrip_slash (path P)
           @ (if query P = [] then [] else ''?'' @ query P)"
    unfolding normalize_feed_url_Str eq by (auto split: sum.splits)
  note f = urlparse_facts [OF sch P]
  have "CHR ''?'' \<notin> set (netloc P)" using f(2) by (auto simp: netloc_delim_def)
  moreover have "CHR ''?'' \<notin> set (rstrip_slash (path P))"
    using f(6) rstrip_slash_subset [of "path P"] by blast
  ultimately have "CHR ''?'' \<in> set r \<longleftrightarrow> query P \<noteq> []"
    using sch_chars(2) [OF sch] by (simp add: r f(1))
  then show ?thesis using P unfolding eq by blast
qed

text \<open>
  Claim C2, with the path rule of the code. \<open>normalize_feed_url\<close> returns \<open>None\<close> for a
  value that is not a string and for a string that is empty after \<open>strip()\<close>. Otherwise
  it parses the stripped string, with \<open>https://\<close> in front when it starts with neither
  \<open>http://\<close> nor \<open>https://\<close>; it raises what \<open>urlparse\<close> raises, and else returns
  scheme, \<open>://\<close>, host and the path without any of its trailing slashes (all of them
  are removed, not one), followed by \<open>?\<close> and the query exactly when the query is not
  empty. The result starts with \<open>http://\<close> or \<open>https://\<close> and has no \<open>#\<close>.
\<close>

theorem normalize_feed_url_rule:
  "normalize_feed_url ok NotStr = Inr None
   \<and> (py_strip s = [] \<longrightarrow> normalize_feed_url ok (Str s) = Inr None)
   \<and> (py_strip s \<noteq> [] \<longrightarrow>
        normalize_feed_url ok (Str s)
          = (case urlparse ok (if \<not> has_http_prefix (py_strip s)
                                then ''https://'' @ py_strip s else py_strip s) of
               Inl x \<Rightarrow> Inl x
             | Inr P \<Rightarrow> Inr (Some (scheme P @ ''://'' @ netloc P @ rstrip_slash (path P)
                                    @ (if query P = [] then [] else ''?'' @ query P)))))
   \<and> (rstrip_slash p = [] \<or> last (rstrip_slash p) \<noteq> CHR ''/'')
   \<and> (\<exists>n. p = rstrip_slash p @ replicate n CHR ''/'')
   \<and> (normalize_feed_url ok (Str s) = Inr (Some r) \<longrightarrow>
        has_http_prefix r \<and> CHR ''#'' \<notin> set r
        \<and> (\<exists>P. urlparse ok (if \<not> has_http_prefix (py_strip s)
                                then ''https://'' @ py_strip s else py_strip s) = Inr P
              \<and> (CHR ''?'' \<in> set r \<longleftrightarrow> query P \<noteq> [])))
   \<and> normalize_feed_url ok (Str ''http://x.com/feed/?a=1#frag'') = Inr (Some ''http://x.com/feed?a=1'')"
proof (intro conjI impI)
  show "normalize_feed_url ok NotStr = Inr None" by (simp add: normalize_feed_url_def)
next
  assume "py_strip s = []"
  then show "normalize_feed_url ok (Str s) = Inr None" by (simp add: normalize_feed_url_Str)
next
  assume "py_strip s \<noteq> []"
  then show "normalize_feed_url ok (Str s)
          = (case urlparse ok (if \<not> has_http_prefix (py_strip s)
                                then ''https://'' @ py_strip s else py_strip s) of
               Inl x \<Rightarrow> Inl x
             | Inr P \<Rightarrow> Inr (Some (scheme P @ ''://'' @ netloc P @ rstrip_slash (path P)
                                    @ (if query P = [] then [] else ''?'' @ query P))))"
    by (simp only: normalize_feed_url_Str if_False)
next
  show "rstrip_slash p = [] \<or> last (rstrip_slash p) \<noteq> CHR ''/''"
    using rstrip_slash_last [of p] by blast
next
  show "\<exists>n. p = rstrip_slash p @ replicate n CHR ''/''" by (rule rstrip_slash_replicate)
next
  assume a: "normalize_feed_url ok (Str s) = Inr (Some r)"
  show "has_http_prefix r" by (rule normalize_feed_url_prefix [OF a])
  show "CHR ''#'' \<notin> set r" by (rule normalize_feed_url_no_fragment [OF a])
  show "\<exists>P. urlparse ok (if \<not> has_http_prefix (py_strip s)
                                then ''https://'' @ py_strip s else py_strip s) = Inr P
              \<and> (CHR ''?'' \<in> set r \<longleftrightarrow> query P \<noteq> [])"
    by (rule normalize_feed_url_query_mark [OF a])
next
  show "normalize_feed_url ok (Str ''http://x.com/feed/?a=1#frag'') = Inr (Some ''http://x.com/feed?a=1'')"
    by code_simp
qed

theorem normalize_feed_url_rule_witness:
  "normalize_feed_url no_brackets (Str ''   '') = Inr None
   \<and> normalize_feed_url no_brackets (Str '' x.com/feed///?a=1#frag '')
       = Inr (Some ''https://x.com/feed?a=1'')
   \<and> has_http_prefix ''https://x.com/feed?a=1''
   \<and> CHR ''#'' \<notin> set ''https://x.com/feed?a=1''"
proof -
  have h1: "py_strip ''   '' = []" by code_simp
  have h2: "py_strip '' x.com/feed///?a=1#frag '' \<noteq> []" by code_simp
  have v: "(case urlparse no_brackets (if \<not> has_http_prefix (py_strip '' x.com/feed///?a=1#frag '')
                                then ''https://'' @ py_strip '' x.com/feed///?a=1#frag ''
                                else py_strip '' x.com/feed///?a=1#frag '') of
               Inl x \<Rightarrow> Inl x
             | Inr P \<Rightarrow> Inr (Some (scheme P @ ''://'' @ netloc P @ rstrip_slash (path P)
                                    @ (if query P = [] then [] else ''?'' @ query P))))
           = Inr (Some ''https://x.com/feed?a=1'')"
    by code_simp
  note a = normalize_feed_url_rule [THEN conjunct2, THEN conjunct1, THEN mp, OF h1]
  note b0 = normalize_feed_url_rule [THEN conjunct2, THEN conjunct2, THEN conjunct1, THEN mp, OF h2]
  have b: "normalize_feed_url no_brackets (Str '' x.com/feed///?a=1#frag '')
       = Inr (Some ''https://x.com/feed?a=1'')"
    by (rule trans [OF b0 v])
  note c = normalize_feed_url_rule [THEN conjunct2, THEN conjunct2, THEN conjunct2,
      THEN conjunct2, THEN conjunct2, THEN conjunct1, THEN mp, OF b]
  show ?thesis by (intro conjI a b c [THEN conjunct1] c [THEN conjunct2, THEN conjunct1])
qed

text \<open>
  The claim's wording of the path rule against the code, on \<open>http://x.com/feed//\<close>:
  stripping a single trailing slash would leave \<open>/feed/\<close>; the code returns
  \<open>/feed\<close>.
\<close>

theorem normalize_feed_url_strips_every_slash:
  "normalize_feed_url no_brackets (Str ''http://x.com/feed//'') = Inr (Some ''http://x.com/feed'')
   \<and> normalizeFeedURL_spec no_brackets (Str ''http://x.com/feed//'')
       = Inr (Some ''http://x.com/feed/'')
   \<and> normalize_feed_url no_brackets (Str ''http://x.com/feed//'')
       \<noteq> normalizeFeedURL_spec no_brackets (Str ''http://x.com/feed//'')"
proof -
  have a: "normalize_feed_url no_brackets (Str ''http://x.com/feed//'')
      = Inr (Some ''http://x.com/feed'')" by code_simp
  have b: "normalizeFeedURL_spec no_brackets (Str ''http://x.com/feed//'')
       = Inr (Some ''http://x.com/feed/'')" by code_simp
  have c: "(Inr (Some ''http://x.com/feed'') :: exn + string option)
       \<noteq> Inr (Some ''http://x.com/feed/'')" by code_simp
  show ?thesis unfolding a b using c by simp
qed

end
